theory Spec2Isabelle
  imports Main "HOL-Library.Word"
begin

unbundle bit_operations_syntax

section \<open>Scheduler (system.c)\<close>

text \<open>
  \<^verbatim>\<open>uint32_t\<close> values are 32-bit words: \<open>+\<close> wraps around and \<open>mod\<close> is the unsigned
  remainder. A task pointer is a value of an arbitrary type \<open>'a\<close> of function
  identities, wrapped in \<open>option\<close>: \<open>None\<close> is \<^verbatim>\<open>NULL\<close>.
\<close>

type_synonym uint32_t = "32 word"

record 'a task_list_type =
  task :: "'a option"
  period :: uint32_t

definition SYSTEM_TASKS_MAX :: nat where
  "SYSTEM_TASKS_MAX = 10"

text \<open>
  \<^verbatim>\<open>s_task_list\<close> is a static array of \<^verbatim>\<open>SYSTEM_TASKS_MAX\<close> nodes and the counter of
  \<^verbatim>\<open>execute_tasks\<close> a static local initialised to 0; static storage starts zeroed, so
  every slot starts with a null task and period 0.
\<close>

record 'a scheduler =
  counter :: uint32_t
  s_task_list :: "'a task_list_type list"

definition scheduler_boot :: "'a scheduler" where
  "scheduler_boot =
     \<lparr>counter = 0, s_task_list = replicate SYSTEM_TASKS_MAX \<lparr>task = None, period = 0\<rparr>\<rparr>"

text \<open>
  The loop of \<^verbatim>\<open>system_add_task\<close> walks the slots from index 0 and leaves at the first
  slot that is empty (which it fills, the period clamped by \<^verbatim>\<open>max_val( prd, 1 )\<close>) or
  that already holds \<^verbatim>\<open>tsk\<close>; running off the end changes nothing.
\<close>

fun add_task_loop :: "'a option \<Rightarrow> uint32_t \<Rightarrow> 'a task_list_type list \<Rightarrow> 'a task_list_type list" where
  "add_task_loop tsk prd [] = []"
| "add_task_loop tsk prd (cur # rest) =
     (if task cur = None then \<lparr>task = tsk, period = max prd 1\<rparr> # rest
      else if task cur = tsk then cur # rest
      else cur # add_task_loop tsk prd rest)"

definition system_add_task :: "'a option \<Rightarrow> uint32_t \<Rightarrow> 'a scheduler \<Rightarrow> 'a scheduler" where
  "system_add_task tsk prd s = s\<lparr>s_task_list := add_task_loop tsk prd (s_task_list s)\<rparr>"

text \<open>\<^verbatim>\<open>system_remove_task\<close> clears every slot that holds \<^verbatim>\<open>tsk\<close>, without a break.\<close>

fun remove_task_loop :: "'a option \<Rightarrow> 'a task_list_type list \<Rightarrow> 'a task_list_type list" where
  "remove_task_loop tsk [] = []"
| "remove_task_loop tsk (cur # rest) =
     (if task cur = tsk then \<lparr>task = None, period = 0\<rparr> # remove_task_loop tsk rest
      else cur # remove_task_loop tsk rest)"

definition system_remove_task :: "'a option \<Rightarrow> 'a scheduler \<Rightarrow> 'a scheduler" where
  "system_remove_task tsk s = s\<lparr>s_task_list := remove_task_loop tsk (s_task_list s)\<rparr>"

text \<open>
  The condition of \<^verbatim>\<open>execute_tasks\<close> at one slot is
  \<^verbatim>\<open>((counter + i) % cur_task->period) == 0 && cur_task->task != NULL\<close>: the remainder is
  the left operand of \<^verbatim>\<open>&&\<close> and is computed first, whatever the task pointer is, and
  \<^verbatim>\<open>counter + i\<close> is an unsigned 32-bit sum. A remainder by zero is undefined in C: the
  tick ends there, with the error \<open>Mod_by_zero\<close>, which names the slot and keeps the
  outcomes of the slots before it. \<open>slot_test\<close> is the condition at a slot whose period
  is not 0.
\<close>

datatype 'a slot_outcome = Invoked 'a | Idle

datatype 'a tick_error = Mod_by_zero nat "'a slot_outcome list"

definition slot_test :: "uint32_t \<Rightarrow> nat \<Rightarrow> 'a task_list_type \<Rightarrow> 'a slot_outcome" where
  "slot_test cnt i cur_task =
     (if (cnt + of_nat i) mod period cur_task = 0
      then (case task cur_task of None \<Rightarrow> Idle | Some f \<Rightarrow> Invoked f)
      else Idle)"

text \<open>
  The loop over the slots from index \<open>i\<close> on; \<open>outs\<close> holds the outcomes of the slots
  already examined.
\<close>

fun execute_loop ::
  "uint32_t \<Rightarrow> nat \<Rightarrow> 'a slot_outcome list \<Rightarrow> 'a task_list_type list
     \<Rightarrow> 'a tick_error + 'a slot_outcome list" where
  "execute_loop cnt i outs [] = Inr outs"
| "execute_loop cnt i outs (cur_task # rest) =
     (if period cur_task = 0 then Inl (Mod_by_zero i outs)
      else execute_loop cnt (Suc i) (outs @ [slot_test cnt i cur_task]) rest)"

text \<open>
  One SysTick: the counter is incremented first, then every slot is examined with the
  incremented counter. A tick that completes gives the new scheduler state and the
  outcome of each slot, in slot order.
\<close>

definition execute_tasks ::
  "'a scheduler \<Rightarrow> 'a tick_error + 'a scheduler \<times> 'a slot_outcome list" where
  "execute_tasks s =
     (let cnt = counter s + 1
      in case execute_loop cnt 0 [] (s_task_list s) of
           Inl e \<Rightarrow> Inl e
         | Inr outs \<Rightarrow> Inr (s\<lparr>counter := cnt\<rparr>, outs))"

text \<open>
  The outcomes of \<open>n\<close> successive ticks, when all of them complete; element \<open>k\<close>
  belongs to tick number \<open>k\<close>, counted from 0.
\<close>

fun run_ticks :: "nat \<Rightarrow> 'a scheduler \<Rightarrow> 'a tick_error + 'a slot_outcome list list" where
  "run_ticks 0 s = Inr []"
| "run_ticks (Suc n) s =
     (case execute_tasks s of
        Inl e \<Rightarrow> Inl e
      | Inr (s', outs) \<Rightarrow>
          (case run_ticks n s' of
             Inl e \<Rightarrow> Inl e
           | Inr later \<Rightarrow> Inr (outs # later)))"

fun is_invoked :: "'a slot_outcome \<Rightarrow> bool" where
  "is_invoked (Invoked f) = True"
| "is_invoked Idle = False"

text \<open>
  The tick numbers, in increasing order, at which slot \<open>i\<close> has its callback called
  during the first \<open>n\<close> ticks from state \<open>s\<close>.
\<close>

definition slot_fire_ticks :: "nat \<Rightarrow> nat \<Rightarrow> 'a scheduler \<Rightarrow> 'a tick_error + nat list" where
  "slot_fire_ticks i n s =
     (case run_ticks n s of
        Inl e \<Rightarrow> Inl e
      | Inr ticks \<Rightarrow> Inr (filter (\<lambda>k. is_invoked (ticks ! k ! i)) [0..<length ticks]))"

text \<open>The number of slots that hold callback \<open>tsk\<close>.\<close>

definition registrations :: "'a option \<Rightarrow> 'a scheduler \<Rightarrow> nat" where
  "registrations tsk s = length (filter (\<lambda>e. task e = tsk) (s_task_list s))"

text \<open>Two callbacks registered at boot, both with period 5: they take slots 0 and 1.\<close>

definition two_tasks :: "nat scheduler" where
  "two_tasks = system_add_task (Some 2) 5 (system_add_task (Some 1) 5 scheduler_boot)"

text \<open>
  The same with eight more callbacks, of period 3, registered after them: the task list
  is full and no slot has period 0.
\<close>

definition ten_tasks :: "nat scheduler" where
  "ten_tasks = fold (\<lambda>k. system_add_task (Some k) 3) [3, 4, 5, 6, 7, 8, 9, 10] two_tasks"

text \<open>Every occupied slot has a period of at least 1.\<close>

definition slots_ok :: "'a task_list_type list \<Rightarrow> bool" where
  "slots_ok ts = list_all (\<lambda>e. task e \<noteq> None \<longrightarrow> period e \<noteq> 0) ts"

section \<open>Multiplexed output driver (leds.c, gpio.c)\<close>

text \<open>
  The hardware the driver touches: the output pins of the GPIO ports and the 12-bit
  right-aligned data holding register of the DAC. \<^verbatim>\<open>configure_output_level\<close> writes
  \<^verbatim>\<open>1 << pin\<close> to the port's \<^verbatim>\<open>BSRRL\<close> (set) or \<^verbatim>\<open>BSRRH\<close> (reset) register, which
  drives that one pin high or low; the model keeps the level of every pin, the value of
  \<^verbatim>\<open>DAC->DHR12R1\<close>, and the sequence of writes in the order they are made.
\<close>

text \<open>
  Modelled from the spec: \<^verbatim>\<open>gpio_type\<close> and \<^verbatim>\<open>gpio_state_type\<close> are declared in gpio.h,
  which is not among the sources. gpio.c reads the fields \<^verbatim>\<open>port\<close> (a pointer, possibly
  null) and \<^verbatim>\<open>pin\<close> of a descriptor and switches on the two states; the spec's pin
  abstraction sets a pin to high or low. The ports are those of the microcontroller.
\<close>

datatype gpio_state_type = GPIO_STATE_LOW | GPIO_STATE_HIGH

datatype gpio_port = GPIOA | GPIOB | GPIOC | GPIOD | GPIOF

record gpio_type =
  port :: "gpio_port option"
  pin :: nat

datatype hw_write = Pin_write gpio_port nat gpio_state_type | Dac_write uint32_t

record hw =
  pins :: "gpio_port \<times> nat \<Rightarrow> gpio_state_type"
  dhr12r1 :: uint32_t
  writes :: "hw_write list"

definition GPIO_PIN_MAX :: nat where
  "GPIO_PIN_MAX = 15"

definition configure_output_level :: "gpio_port \<Rightarrow> nat \<Rightarrow> gpio_state_type \<Rightarrow> hw \<Rightarrow> hw" where
  "configure_output_level p n cfg h =
     (case cfg of
        GPIO_STATE_HIGH \<Rightarrow>
          h\<lparr>pins := (pins h)((p, n) := GPIO_STATE_HIGH),
            writes := writes h @ [Pin_write p n GPIO_STATE_HIGH]\<rparr>
      | GPIO_STATE_LOW \<Rightarrow>
          h\<lparr>pins := (pins h)((p, n) := GPIO_STATE_LOW),
            writes := writes h @ [Pin_write p n GPIO_STATE_LOW]\<rparr>)"

text \<open>
  \<^verbatim>\<open>gpio_output_set\<close> returns without a write when the descriptor pointer or its port
  is null or the pin number exceeds \<^verbatim>\<open>GPIO_PIN_MAX\<close>.
\<close>

definition gpio_output_set :: "gpio_type option \<Rightarrow> gpio_state_type \<Rightarrow> hw \<Rightarrow> hw" where
  "gpio_output_set gpio state h =
     (case gpio of
        None \<Rightarrow> h
      | Some g \<Rightarrow>
          (case port g of
             None \<Rightarrow> h
           | Some p \<Rightarrow> if pin g > GPIO_PIN_MAX then h else configure_output_level p (pin g) state h))"

definition ANALOG_SWITCH_SELECT_0 :: nat where "ANALOG_SWITCH_SELECT_0 = 0"
definition ANALOG_SWITCH_SELECT_1 :: nat where "ANALOG_SWITCH_SELECT_1 = 1"
definition ANALOG_SWITCH_SELECT_2 :: nat where "ANALOG_SWITCH_SELECT_2 = 2"
definition ANALOG_SWITCH_NENABLE :: nat where "ANALOG_SWITCH_NENABLE = 3"

definition analog_switch_io :: "gpio_type list" where
  "analog_switch_io =
     [\<lparr>port = Some GPIOA, pin = 9\<rparr>,
      \<lparr>port = Some GPIOA, pin = 10\<rparr>,
      \<lparr>port = Some GPIOA, pin = 11\<rparr>,
      \<lparr>port = Some GPIOA, pin = 12\<rparr>]"

text \<open>
  Modelled from the spec: \<^verbatim>\<open>LED_COUNT\<close> and \<^verbatim>\<open>led_type\<close> are declared in leds.h, which is
  not among the sources. The spec gives the channel count N = 8 (the file comment of
  leds.c speaks of 8 LED drivers and three select pins); an LED id is a \<open>nat\<close>.
\<close>

definition LED_COUNT :: nat where
  "LED_COUNT = 8"

definition dac_enable_output :: "bool \<Rightarrow> hw \<Rightarrow> hw" where
  "dac_enable_output enable h =
     gpio_output_set (Some (analog_switch_io ! ANALOG_SWITCH_NENABLE))
       (if enable then GPIO_STATE_LOW else GPIO_STATE_HIGH) h"

text \<open>
  The loop of \<^verbatim>\<open>dac_set_led\<close> runs \<open>i\<close> from \<^verbatim>\<open>ANALOG_SWITCH_SELECT_0\<close> to
  \<^verbatim>\<open>ANALOG_SWITCH_SELECT_2\<close> inclusive and drives select pin \<open>i\<close> high exactly when
  \<^verbatim>\<open>led_id & (1 << (i - ANALOG_SWITCH_SELECT_0))\<close> is not zero.
\<close>

definition dac_set_led_step :: "nat \<Rightarrow> nat \<Rightarrow> hw \<Rightarrow> hw" where
  "dac_set_led_step led i h =
     gpio_output_set (Some (analog_switch_io ! i))
       (if led AND push_bit (i - ANALOG_SWITCH_SELECT_0) 1 \<noteq> 0
        then GPIO_STATE_HIGH else GPIO_STATE_LOW) h"

definition dac_set_led :: "nat \<Rightarrow> hw \<Rightarrow> hw" where
  "dac_set_led led h =
     fold (dac_set_led_step led) [ANALOG_SWITCH_SELECT_0 ..< Suc ANALOG_SWITCH_SELECT_2] h"

definition dac_set_output :: "uint32_t \<Rightarrow> hw \<Rightarrow> hw" where
  "dac_set_output dac_val h =
     h\<lparr>dhr12r1 := dac_val AND 0x00000FFF,
       writes := writes h @ [Dac_write (dac_val AND 0x00000FFF)]\<rparr>"

definition led_update_brightness :: "nat \<Rightarrow> uint32_t \<Rightarrow> hw \<Rightarrow> hw" where
  "led_update_brightness led led_brightness h =
     dac_enable_output True
       (dac_set_led led
          (dac_set_output led_brightness
             (dac_enable_output False h)))"

text \<open>
  The state of leds.c: the static \<^verbatim>\<open>led_id\<close> of \<^verbatim>\<open>led_periodic_callback\<close> (zero at
  boot), the array \<^verbatim>\<open>s_led_brightness\<close> of \<^verbatim>\<open>LED_COUNT\<close> 32-bit values and the hardware.
  The array elements are \<^verbatim>\<open>int32_t\<close> while the arguments that are stored to and passed
  from them are \<^verbatim>\<open>uint32_t\<close>; the two conversions keep the 32 bits, so the model stores
  the word.
\<close>

record led_state =
  led_id :: nat
  s_led_brightness :: "uint32_t list"
  led_hw :: hw

definition led_set_brightness :: "nat \<Rightarrow> uint32_t \<Rightarrow> led_state \<Rightarrow> led_state" where
  "led_set_brightness led led_brightness st =
     (if led < LED_COUNT
      then st\<lparr>s_led_brightness := (s_led_brightness st)[led := led_brightness]\<rparr>
      else st)"

text \<open>
  \<^verbatim>\<open>led_periodic_callback\<close> reads \<^verbatim>\<open>s_led_brightness[ led_id ]\<close>; the index is in
  range in every state with \<open>led_state_ok\<close>, which holds at boot and which both
  procedures keep.
\<close>

definition led_periodic_callback :: "led_state \<Rightarrow> led_state" where
  "led_periodic_callback st =
     st\<lparr>led_hw := led_update_brightness (led_id st) (s_led_brightness st ! led_id st) (led_hw st),
        led_id := (led_id st + 1) mod LED_COUNT\<rparr>"

definition led_state_ok :: "led_state \<Rightarrow> bool" where
  "led_state_ok st \<longleftrightarrow> led_id st < LED_COUNT \<and> length (s_led_brightness st) = LED_COUNT"

definition led_boot :: "hw \<Rightarrow> led_state" where
  "led_boot h = \<lparr>led_id = 0, s_led_brightness = replicate LED_COUNT 0, led_hw = h\<rparr>"

text \<open>
  What the analog switch sees: the channel whose binary code is on the three select
  pins (select 0 is the least significant bit), and whether its outputs are enabled
  (\<^verbatim>\<open>nEnable\<close> low).
\<close>

definition pin_bit :: "hw \<Rightarrow> nat \<Rightarrow> nat" where
  "pin_bit h n = (case pins h (GPIOA, n) of GPIO_STATE_HIGH \<Rightarrow> 1 | GPIO_STATE_LOW \<Rightarrow> 0)"

definition selected_channel :: "hw \<Rightarrow> nat" where
  "selected_channel h = pin_bit h 9 + 2 * pin_bit h 10 + 4 * pin_bit h 11"

definition path_enabled :: "hw \<Rightarrow> bool" where
  "path_enabled h \<longleftrightarrow> pins h (GPIOA, 12) = GPIO_STATE_LOW"

text \<open>The channels addressed by \<open>n\<close> successive invocations of the output driver.\<close>

fun addressed_channels :: "nat \<Rightarrow> led_state \<Rightarrow> nat list" where
  "addressed_channels 0 st = []"
| "addressed_channels (Suc n) st =
     selected_channel (led_hw (led_periodic_callback st))
       # addressed_channels n (led_periodic_callback st)"

text \<open>The hardware with every pin low, the DAC register zero and no write made yet.\<close>

definition hw_reset :: hw where
  "hw_reset = \<lparr>pins = (\<lambda>_. GPIO_STATE_LOW), dhr12r1 = 0, writes = []\<rparr>"

text \<open>The writes that a driver procedure makes, in order: those it adds to an empty record.\<close>

definition call_writes :: "(hw \<Rightarrow> hw) \<Rightarrow> hw_write list" where
  "call_writes f = writes (f hw_reset)"

definition level :: "bool \<Rightarrow> gpio_state_type" where
  "level b = (if b then GPIO_STATE_HIGH else GPIO_STATE_LOW)"

section \<open>Animation engine (fireflies.c)\<close>

text \<open>
  \<^verbatim>\<open>int32_t\<close> and \<^verbatim>\<open>int16_t\<close> values are integers of type \<open>int\<close>. Where a sum or a
  conversion can leave the range of its type the model writes out the two's-complement
  wrap-around of the target (\<open>s32\<close>, \<open>s16\<close>); C itself leaves a signed overflow
  undefined. Inside the loops over a pattern the times lie between 0 and the pattern
  length and the brightness values between 0 and 1000, so no sum or product there comes
  near the limits of \<^verbatim>\<open>int32_t\<close>, and the arithmetic there is plain.
  \<^verbatim>\<open>/\<close> truncates towards zero (\<open>c_div\<close>), \<^verbatim>\<open>>> 1\<close> on a signed value is the arithmetic
  shift (\<open>div 2\<close>, rounding down) and \<^verbatim>\<open><< 1\<close> doubles.
\<close>

definition s32 :: "int \<Rightarrow> int" where
  "s32 x = (x + 2 ^ 31) mod 2 ^ 32 - 2 ^ 31"

definition s16 :: "int \<Rightarrow> int" where
  "s16 x = (x + 2 ^ 15) mod 2 ^ 16 - 2 ^ 15"

definition is_int32 :: "int \<Rightarrow> bool" where
  "is_int32 x \<longleftrightarrow> - (2 ^ 31) \<le> x \<and> x < 2 ^ 31"

definition is_int16 :: "int \<Rightarrow> bool" where
  "is_int16 x \<longleftrightarrow> - (2 ^ 15) \<le> x \<and> x < 2 ^ 15"

definition c_div :: "int \<Rightarrow> int \<Rightarrow> int" where
  "c_div a b = (if (a < 0) = (b < 0) then \<bar>a\<bar> div \<bar>b\<bar> else - (\<bar>a\<bar> div \<bar>b\<bar>))"

record flash_point_type =
  target :: int
  time :: int

definition FIREFLY_FLASHPOINTS_MAX :: nat where
  "FIREFLY_FLASHPOINTS_MAX = 15"

definition FLASH_COUNT :: nat where
  "FLASH_COUNT = 6"

definition FLASH_PHOTINUS_PALLENS :: nat where "FLASH_PHOTINUS_PALLENS = 0"
definition FLASH_PHOTINUS_LEWISI :: nat where "FLASH_PHOTINUS_LEWISI = 1"
definition FLASH_PHOTINUS_AMPLUS :: nat where "FLASH_PHOTINUS_AMPLUS = 2"
definition FLASH_PHOTINUS_XANTHOPHOTIS :: nat where "FLASH_PHOTINUS_XANTHOPHOTIS = 3"
definition FLASH_PHOTURIS_JAMAICENSIS :: nat where "FLASH_PHOTURIS_JAMAICENSIS = 4"
definition FLASH_PHOTINUS_LEUCOPYGE :: nat where "FLASH_PHOTINUS_LEUCOPYGE = 5"

definition zero_point :: flash_point_type where
  "zero_point = \<lparr>target = 0, time = 0\<rparr>"

text \<open>
  Each row of \<^verbatim>\<open>flash_patterns\<close> has \<^verbatim>\<open>FIREFLY_FLASHPOINTS_MAX\<close> elements; the
  initialiser lists fewer, and C fills the rest of the row with zeros.
\<close>

definition pattern_row :: "(int \<times> int) list \<Rightarrow> flash_point_type list" where
  "pattern_row ps =
     map (\<lambda>(tg, tm). \<lparr>target = tg, time = tm\<rparr>) ps
       @ replicate (FIREFLY_FLASHPOINTS_MAX - length ps) zero_point"

definition flash_patterns :: "flash_point_type list list" where
  "flash_patterns =
     [pattern_row [(800, 300), (1000, 100), (800, 200), (0, 400)],
      pattern_row [(500, 100), (500, 800), (0, 100)],
      pattern_row [(1000, 100), (1, 100), (1, 100), (1000, 100), (0, 100)],
      pattern_row [(1000, 200), (1, 100), (1, 200), (300, 100), (1, 100), (300, 100), (0, 100)],
      pattern_row [(500, 50), (500, 200), (0, 50)],
      pattern_row [(1000, 50), (1000, 200), (0, 50)]]"

text \<open>
  \<^verbatim>\<open>flash_patterns[ flash_type ]\<close>: a flash id beyond the table is a read outside the
  array, which is \<open>None\<close> here.
\<close>

definition flash_pattern_of :: "nat \<Rightarrow> flash_point_type list option" where
  "flash_pattern_of flash_type =
     (if flash_type < FLASH_COUNT then Some (flash_patterns ! flash_type) else None)"

text \<open>
  All three procedures walk a row with
  \<^verbatim>\<open>for( i = 0; i == 0 || flash_pattern[ i - 1 ].target != 0; i++ )\<close>: the body runs for
  point \<open>i\<close>, and the loop is left before point \<open>i + 1\<close> when point \<open>i\<close> has target 0.
  The recursions below take the points from index \<open>i\<close> on; the empty list is index 15,
  a read beyond the row, which is \<open>None\<close>.
\<close>

fun flash_length_loop :: "flash_point_type list \<Rightarrow> int \<Rightarrow> int option" where
  "flash_length_loop [] flash_length = None"
| "flash_length_loop (p # ps) flash_length =
     (if target p = 0 then Some (flash_length + time p)
      else flash_length_loop ps (flash_length + time p))"

definition calculate_flash_length :: "nat \<Rightarrow> int option" where
  "calculate_flash_length flash_type =
     (case flash_pattern_of flash_type of
        None \<Rightarrow> None
      | Some flash_pattern \<Rightarrow> flash_length_loop flash_pattern 0)"

text \<open>
  The search loop of \<^verbatim>\<open>calculate_brightness_unsmoothed\<close>. Its result is the current
  point, the previous point and \<^verbatim>\<open>flash_point_end_time\<close> as they stand after the loop;
  \<open>prv\<close> is the point before the one examined (the cleared struct at index 0). When
  the loop ends without a \<^verbatim>\<open>break\<close> both structs are still cleared.
\<close>

fun unsmoothed_loop ::
  "flash_point_type \<Rightarrow> flash_point_type list \<Rightarrow> int \<Rightarrow> int
     \<Rightarrow> (flash_point_type \<times> flash_point_type \<times> int) option" where
  "unsmoothed_loop prv [] end_time flash_time = None"
| "unsmoothed_loop prv (p # ps) end_time flash_time =
     (let end_time' = end_time + time p
      in if flash_time < end_time' then Some (p, prv, end_time')
         else if target p = 0 then Some (zero_point, zero_point, end_time')
         else unsmoothed_loop p ps end_time' flash_time)"

definition calculate_brightness_unsmoothed :: "nat \<Rightarrow> int \<Rightarrow> int option" where
  "calculate_brightness_unsmoothed flash_type flash_time =
     (if flash_time < 0 then Some 0
      else case flash_pattern_of flash_type of
        None \<Rightarrow> None
      | Some flash_pattern \<Rightarrow>
          (case unsmoothed_loop zero_point flash_pattern 0 flash_time of
             None \<Rightarrow> None
           | Some (cur, prv, end_time) \<Rightarrow>
               Some (if time cur \<noteq> 0
                     then c_div ((time cur - (end_time - flash_time)) * (target cur - target prv))
                            (time cur) + target prv
                     else 0)))"

text \<open>
  The integration loop of \<^verbatim>\<open>calculate_brightness_smoothed\<close>, from the point at the head
  of the list on, with \<^verbatim>\<open>flash_point_start_time\<close> and the running \<^verbatim>\<open>brightness\<close>.
  \<open>interval_start\<close> is the three-way choice of \<^verbatim>\<open>t1\<close>; \<open>None\<close> there is the branch that
  moves the start time on and continues.
\<close>

definition interval_start :: "int \<Rightarrow> int \<Rightarrow> int \<Rightarrow> int option" where
  "interval_start smooth_start start_time end_time =
     (if smooth_start \<ge> start_time \<and> smooth_start < end_time then Some smooth_start
      else if smooth_start < start_time then Some start_time
      else None)"

fun smoothed_loop ::
  "nat \<Rightarrow> flash_point_type list \<Rightarrow> int \<Rightarrow> int \<Rightarrow> int \<Rightarrow> int \<Rightarrow> int option" where
  "smoothed_loop flash_id [] start_time brightness smooth_start smooth_end = None"
| "smoothed_loop flash_id (p # ps) start_time brightness smooth_start smooth_end =
     (let end_time = start_time + time p
      in case interval_start smooth_start start_time end_time of
           None \<Rightarrow>
             if target p = 0 then Some brightness
             else smoothed_loop flash_id ps end_time brightness smooth_start smooth_end
         | Some t1 \<Rightarrow>
             (case calculate_brightness_unsmoothed flash_id t1 of
                None \<Rightarrow> None
              | Some b1 \<Rightarrow>
                  let t2 = min end_time smooth_end
                  in (case calculate_brightness_unsmoothed flash_id t2 of
                        None \<Rightarrow> None
                      | Some b2 \<Rightarrow>
                          let brightness' = brightness + (b2 + b1) * (t2 - t1)
                          in if t2 = smooth_end then Some brightness'
                             else if target p = 0 then Some brightness'
                             else smoothed_loop flash_id ps t2 brightness' smooth_start
                                    smooth_end)))"

definition calculate_brightness_smoothed :: "nat \<Rightarrow> int \<Rightarrow> int \<Rightarrow> int option" where
  "calculate_brightness_smoothed flash_id flash_time smoothing =
     (let half_smooth = smoothing div 2;
          smoothing' = s16 (half_smooth * 2 + 1);
          smooth_start = s32 (flash_time - half_smooth);
          smooth_end = s32 (smooth_start + smoothing')
      in case calculate_flash_length flash_id of
           None \<Rightarrow> None
         | Some flash_length \<Rightarrow>
             if smooth_end < 0 \<or> smooth_start > flash_length then Some 0
             else (case flash_pattern_of flash_id of
                     None \<Rightarrow> None
                   | Some flash_pattern \<Rightarrow>
                       (case smoothed_loop flash_id flash_pattern 0 0 smooth_start smooth_end of
                          None \<Rightarrow> None
                        | Some brightness \<Rightarrow> Some (c_div brightness (2 * smoothing')))))"

record firefly_type =
  brightness :: int
  flashing :: bool
  flash_id :: nat
  flash_time :: int
  smoothing :: int
  delay_len :: int
  delay_time :: int

text \<open>
  \<^verbatim>\<open>firefly_step\<close>: the \<^verbatim>\<open>int32_t\<close> field \<^verbatim>\<open>smoothing\<close> is passed for an \<^verbatim>\<open>int16_t\<close>
  parameter; the guard compares the field itself with the new flash time.
\<close>

definition firefly_step :: "firefly_type \<Rightarrow> int \<Rightarrow> firefly_type option" where
  "firefly_step firefly time_step =
     (let ft = s32 (flash_time firefly + time_step)
      in case calculate_brightness_smoothed (flash_id firefly) ft (s16 (smoothing firefly)) of
           None \<Rightarrow> None
         | Some b \<Rightarrow>
             Some (firefly\<lparr>flash_time := ft, brightness := b,
                            flashing := (if b = 0 \<and> smoothing firefly < ft then False
                                         else flashing firefly)\<rparr>))"

text \<open>
  The body of the loop of \<^verbatim>\<open>firefly_periodic_callback\<close> for one firefly. The three
  values \<open>r1\<close>, \<open>r2\<close>, \<open>r3\<close> are what the three calls of \<^verbatim>\<open>rand()\<close> return (never
  negative) when a new flash is set up; \<^verbatim>\<open>rand_range\<close> is the macro of that name. The
  second component of the result is the value handed to \<^verbatim>\<open>led_set_brightness\<close> for
  this firefly, if any. \<^verbatim>\<open>FIREFLY_TIMESTEP\<close> is \<^verbatim>\<open>LED_COUNT\<close>.
\<close>

definition FIREFLY_TIMESTEP :: int where
  "FIREFLY_TIMESTEP = int LED_COUNT"

definition FIREFLY_DELAY_MAX :: int where "FIREFLY_DELAY_MAX = 12000"
definition FIREFLY_DELAY_MIN :: int where "FIREFLY_DELAY_MIN = 1000"
definition FIREFLY_SMOOTHING_MAX :: int where "FIREFLY_SMOOTHING_MAX = 500"
definition FIREFLY_SMOOTHING_MIN :: int where "FIREFLY_SMOOTHING_MIN = 50"

definition rand_range :: "int \<Rightarrow> int \<Rightarrow> int \<Rightarrow> int" where
  "rand_range r mn mx = r mod (mx - mn + 1) + mn"

definition firefly_update ::
  "int \<Rightarrow> int \<Rightarrow> int \<Rightarrow> firefly_type \<Rightarrow> (firefly_type \<times> int option) option" where
  "firefly_update r1 r2 r3 firefly =
     (if flashing firefly then
        (case firefly_step firefly FIREFLY_TIMESTEP of
           None \<Rightarrow> None
         | Some firefly' \<Rightarrow>
             Some (firefly', Some (c_div (s32 (brightness firefly' * 150)) 1000)))
      else if delay_len firefly \<le> delay_time firefly then
        (let sm = rand_range r2 FIREFLY_SMOOTHING_MIN FIREFLY_SMOOTHING_MAX
         in Some (firefly\<lparr>flash_id := nat (rand_range r1 (int FLASH_PHOTINUS_PALLENS)
                                             (int FLASH_PHOTINUS_LEUCOPYGE)),
                           smoothing := sm,
                           flash_time := - (c_div sm 2),
                           flashing := True,
                           delay_len := rand_range r3 FIREFLY_DELAY_MIN FIREFLY_DELAY_MAX,
                           delay_time := 0\<rparr>, None))
      else Some (firefly\<lparr>delay_time := s32 (delay_time firefly + FIREFLY_TIMESTEP)\<rparr>, None))"

text \<open>
  What every firefly satisfies from \<^verbatim>\<open>firefly_init\<close> on: a defined pattern and a
  smoothing value that fits the \<^verbatim>\<open>int16_t\<close> parameter.
\<close>

definition firefly_ok :: "firefly_type \<Rightarrow> bool" where
  "firefly_ok f \<longleftrightarrow> flash_id f < FLASH_COUNT \<and> 0 \<le> smoothing f \<and> smoothing f < 2 ^ 15"

text \<open>What \<^verbatim>\<open>firefly_init\<close> stores in each firefly; \<open>r\<close> is the value of its call of \<^verbatim>\<open>rand()\<close>.\<close>

definition firefly_init :: "int \<Rightarrow> firefly_type" where
  "firefly_init r =
     \<lparr>brightness = 0, flashing = False, flash_id = FLASH_PHOTINUS_PALLENS, flash_time = 0,
      smoothing = FIREFLY_SMOOTHING_MIN,
      delay_len = rand_range r FIREFLY_DELAY_MIN FIREFLY_DELAY_MAX, delay_time = 0\<rparr>"

text \<open>A firefly late in a flash of pattern 4, which is 300 ticks long.\<close>

definition late_firefly :: firefly_type where
  "late_firefly = \<lparr>brightness = 3, flashing = True, flash_id = FLASH_PHOTURIS_JAMAICENSIS,
     flash_time = 342, smoothing = 50, delay_len = 5000, delay_time = 0\<rparr>"

text \<open>The pattern length as the specification words it: the durations of all points through the first zero-target point, summed.\<close>

definition through_terminator :: "flash_point_type list \<Rightarrow> flash_point_type list" where
  "through_terminator ps = takeWhile (\<lambda>p. target p \<noteq> 0) ps @ take 1 (dropWhile (\<lambda>p. target p \<noteq> 0) ps)"

definition pattern_duration :: "flash_point_type list \<Rightarrow> int" where
  "pattern_duration ps = sum_list (map time (through_terminator ps))"

text \<open>
  What the proofs ask of a row: targets within 0..1000, no negative duration, and a
  point with target 0 somewhere in it.
\<close>

definition point_ok :: "flash_point_type \<Rightarrow> bool" where
  "point_ok p \<longleftrightarrow> 0 \<le> target p \<and> target p \<le> 1000 \<and> 0 \<le> time p"

definition row_ok :: "flash_point_type list \<Rightarrow> bool" where
  "row_ok ps \<longleftrightarrow> list_all point_ok ps \<and> list_ex (\<lambda>p. target p = 0) ps"

section \<open>Properties of the scheduler\<close>

text \<open>On a task list with no period 0 the loop completes, with one outcome per slot.\<close>

lemma execute_loop_completes:
  "0 \<notin> set (map period ts) \<Longrightarrow>
   \<exists>new. execute_loop cnt j outs ts = Inr (outs @ new) \<and> length new = length ts
     \<and> (\<forall>i < length ts. new ! i = slot_test cnt (j + i) (ts ! i))"
proof (induction ts arbitrary: j outs)
  case Nil
  then show ?case by simp
next
  case (Cons cur rest)
  from Cons.prems have nz: "period cur \<noteq> 0" and r: "0 \<notin> set (map period rest)"
    by auto
  from Cons.IH [OF r, of "Suc j" "outs @ [slot_test cnt j cur]"]
  obtain new where n: "execute_loop cnt (Suc j) (outs @ [slot_test cnt j cur]) rest
      = Inr ((outs @ [slot_test cnt j cur]) @ new)" "length new = length rest"
    "\<forall>i < length rest. new ! i = slot_test cnt (Suc j + i) (rest ! i)"
    by blast
  have "\<forall>i < length (cur # rest).
      (slot_test cnt j cur # new) ! i = slot_test cnt (j + i) ((cur # rest) ! i)"
  proof (intro allI impI)
    fix i assume "i < length (cur # rest)"
    then show "(slot_test cnt j cur # new) ! i = slot_test cnt (j + i) ((cur # rest) ! i)"
      using n(3) by (cases i) simp_all
  qed
  with nz n(1,2) show ?case
    by (intro exI [of _ "slot_test cnt j cur # new"]) simp
qed

lemma slot_test_occupied:
  "task cur = Some f \<Longrightarrow>
   slot_test cnt i cur = (if (cnt + of_nat i) mod period cur = 0 then Invoked f else Idle)"
  by (simp add: slot_test_def)

text \<open>
  The clamp of \<^verbatim>\<open>system_add_task\<close> keeps every occupied slot at a period of at least
  1, from boot on and through every registration and removal.
\<close>

lemma clamped_period_nonzero: "max prd 1 \<noteq> (0 :: uint32_t)"
proof
  assume "max prd 1 = (0 :: uint32_t)"
  moreover have "(1 :: uint32_t) \<le> max prd 1" by simp
  ultimately show False by simp
qed

lemma slots_ok_boot: "slots_ok (s_task_list scheduler_boot)"
  by (simp add: slots_ok_def scheduler_boot_def list_all_iff)

lemma slots_ok_add: "slots_ok ts \<Longrightarrow> slots_ok (add_task_loop tsk prd ts)"
  by (induction ts) (simp_all add: slots_ok_def clamped_period_nonzero)

lemma slots_ok_remove: "slots_ok ts \<Longrightarrow> slots_ok (remove_task_loop tsk ts)"
  by (induction ts) (simp_all add: slots_ok_def)

text \<open>What does hold of a repeated or a surplus registration.\<close>

lemma add_task_full:
  "list_all (\<lambda>e. task e \<noteq> None \<and> task e \<noteq> tsk) ts \<Longrightarrow> add_task_loop tsk prd ts = ts"
  by (induction ts) auto

lemma add_task_again:
  "tsk \<noteq> None \<Longrightarrow> add_task_loop tsk prd' (add_task_loop tsk prd ts) = add_task_loop tsk prd ts"
  by (induction ts) auto

lemma fire_ticks_slot0: "slot_fire_ticks 0 10 ten_tasks = Inr [4, 9]"
  by code_simp

lemma fire_ticks_slot1: "slot_fire_ticks 1 10 ten_tasks = Inr [3, 8]"
  by code_simp

text \<open>
  C1, as the code has it. On a tick at which no slot of the task list has period 0, the
  tick increments the 32-bit counter and then tests every slot with the incremented
  value: an occupied slot \<open>i\<close> with period \<open>P\<close> has its callback called exactly when
  \<open>(counter + 1 + i) mod P = 0\<close>, where \<open>counter\<close> is the value before the tick and the
  sum is taken modulo \<open>2^32\<close>. (With a slot of period 0, as every empty slot is, the tick
  takes a remainder by zero: see C2.) The counter is 0 at boot, so the first tick tests
  the value 1: in the full task list \<open>ten_tasks\<close>, whose slots 0 and 1 hold tasks of
  period 5, of the first ten ticks, numbered 0 to 9, slot 0 fires at ticks 4 and 9
  (counter values 5 and 10) and slot 1 at ticks 3 and 8 (counter values 4 and 9).
\<close>

theorem scheduler_phase:
  "(\<forall>(s :: 'a scheduler) i f.
      0 \<notin> set (map period (s_task_list s)) \<and> i < length (s_task_list s)
        \<and> task (s_task_list s ! i) = Some f \<longrightarrow>
      (\<exists>outs. execute_tasks s = Inr (s\<lparr>counter := counter s + 1\<rparr>, outs)
         \<and> length outs = length (s_task_list s)
         \<and> outs ! i =
             (if (counter s + 1 + of_nat i) mod period (s_task_list s ! i) = 0
              then Invoked f else Idle)))
   \<and> counter ten_tasks = 0
   \<and> map task (s_task_list ten_tasks)
       = [Some 1, Some 2, Some 3, Some 4, Some 5, Some 6, Some 7, Some 8, Some 9, Some 10]
   \<and> map period (s_task_list ten_tasks) = [5, 5, 3, 3, 3, 3, 3, 3, 3, 3]
   \<and> slot_fire_ticks 0 10 ten_tasks = Inr [4, 9]
   \<and> slot_fire_ticks 1 10 ten_tasks = Inr [3, 8]"
proof -
  have general: "\<exists>outs. execute_tasks s = Inr (s\<lparr>counter := counter s + 1\<rparr>, outs)
         \<and> length outs = length (s_task_list s)
         \<and> outs ! i =
             (if (counter s + 1 + of_nat i) mod period (s_task_list s ! i) = 0
              then Invoked f else Idle)"
    if "0 \<notin> set (map period (s_task_list s))" "i < length (s_task_list s)"
       "task (s_task_list s ! i) = Some f" for s :: "'a scheduler" and i f
  proof -
    from execute_loop_completes [OF that(1), of "counter s + 1" 0 "[]"]
    obtain new where n: "execute_loop (counter s + 1) 0 [] (s_task_list s) = Inr new"
      "length new = length (s_task_list s)"
      "\<forall>i < length (s_task_list s). new ! i = slot_test (counter s + 1) i (s_task_list s ! i)"
      by auto
    from n(3) that(2) have "new ! i = slot_test (counter s + 1) i (s_task_list s ! i)"
      by blast
    with n(1,2) that(3) show ?thesis
      by (simp add: execute_tasks_def Let_def slot_test_occupied)
  qed
  have boot: "counter ten_tasks = 0"
    by code_simp
  have tasks: "map task (s_task_list ten_tasks)
       = [Some 1, Some 2, Some 3, Some 4, Some 5, Some 6, Some 7, Some 8, Some 9, Some 10]"
    by code_simp
  have periods: "map period (s_task_list ten_tasks) = [5, 5, 3, 3, 3, 3, 3, 3, 3, 3]"
    by code_simp
  show ?thesis
    using general boot tasks periods fire_ticks_slot0 fire_ticks_slot1 by blast
qed

text \<open>
  The general part at a concrete tick: slot 0 of \<open>ten_tasks\<close> with the counter at 4, so
  that the tick tests the value 5.
\<close>

theorem scheduler_phase_witness:
  "0 \<notin> set (map period (s_task_list (ten_tasks\<lparr>counter := 4\<rparr>)))
   \<and> 0 < length (s_task_list (ten_tasks\<lparr>counter := 4\<rparr>))
   \<and> task (s_task_list (ten_tasks\<lparr>counter := 4\<rparr>) ! 0) = Some 1
   \<and> period (s_task_list (ten_tasks\<lparr>counter := 4\<rparr>) ! 0) = 5
   \<and> (\<exists>outs. execute_tasks (ten_tasks\<lparr>counter := 4\<rparr>)
                 = Inr (ten_tasks\<lparr>counter := 5\<rparr>, outs)
          \<and> outs ! 0 = Invoked 1)"
proof -
  have h: "0 \<notin> set (map period (s_task_list (ten_tasks\<lparr>counter := 4\<rparr>)))
     \<and> 0 < length (s_task_list (ten_tasks\<lparr>counter := 4\<rparr>))
     \<and> task (s_task_list (ten_tasks\<lparr>counter := 4\<rparr>) ! 0) = Some 1"
    by code_simp
  have p: "period (s_task_list (ten_tasks\<lparr>counter := 4\<rparr>) ! 0) = 5"
    by code_simp
  from scheduler_phase [THEN conjunct1, rule_format, OF h] h p
  show ?thesis by auto
qed

text \<open>
  C1 as the claim words it does not hold. With the two tasks alone the first tick finds
  slots 0 and 1 idle and then takes the remainder by zero at the empty slot 2; in the
  full task list, slot 0 does not fire at ticks 0 and 5 nor slot 1 at ticks 4 and 9.
\<close>

theorem scheduler_phase_counterexample:
  "execute_tasks two_tasks = Inl (Mod_by_zero 2 [Idle, Idle])
   \<and> \<not> (slot_fire_ticks 0 10 ten_tasks = Inr [0, 5]
         \<and> slot_fire_ticks 1 10 ten_tasks = Inr [4, 9])"
  by code_simp

text \<open>
  C2 fails on the code: an empty slot has period 0, and the tick computes the remainder
  by that period before it looks at the task pointer. At boot all ten slots are empty
  and the first tick takes the remainder by zero at slot 0; with two tasks registered
  the other eight slots still are empty and it does so at slot 2.
\<close>

theorem empty_slot_mod_by_zero:
  "map period (s_task_list (scheduler_boot :: nat scheduler)) = replicate 10 0
   \<and> execute_tasks (scheduler_boot :: nat scheduler) = Inl (Mod_by_zero 0 [])
   \<and> map period (s_task_list two_tasks) = [5, 5] @ replicate 8 0
   \<and> execute_tasks two_tasks = Inl (Mod_by_zero 2 [Idle, Idle])"
  by code_simp

text \<open>
  C5 fails on the code: the loop of \<^verbatim>\<open>system_add_task\<close> stops at the first empty slot
  before it has seen a later slot that holds the callback. Register callbacks 1 and 2,
  remove 1, register 2 again: callback 2 is now in slots 0 and 1.
\<close>

theorem duplicate_registration:
  "registrations (Some 2)
     (system_add_task (Some 2) 1 (system_remove_task (Some 1)
        (system_add_task (Some 2) 1 (system_add_task (Some (1::nat)) 1 scheduler_boot)))) = 2
   \<and> map task (s_task_list
     (system_add_task (Some 2) 1 (system_remove_task (Some 1)
        (system_add_task (Some 2) 1 (system_add_task (Some (1::nat)) 1 scheduler_boot)))))
     = [Some 2, Some 2] @ replicate 8 None"
  by code_simp

section \<open>Properties of the output driver\<close>

lemma gpio_output_set_port_A:
  "n \<le> 15 \<Longrightarrow> gpio_output_set (Some \<lparr>port = Some GPIOA, pin = n\<rparr>) lv h =
     h\<lparr>pins := (pins h)((GPIOA, n) := lv), writes := writes h @ [Pin_write GPIOA n lv]\<rparr>"
  by (cases lv) (simp_all add: gpio_output_set_def configure_output_level_def GPIO_PIN_MAX_def)

lemma select_range: "[ANALOG_SWITCH_SELECT_0 ..< Suc ANALOG_SWITCH_SELECT_2] = [0, Suc 0, 2]"
  by (simp add: ANALOG_SWITCH_SELECT_0_def ANALOG_SWITCH_SELECT_2_def upt_rec numeral_2_eq_2)

lemma analog_switch_io_nth:
  "analog_switch_io ! 0 = \<lparr>port = Some GPIOA, pin = 9\<rparr>"
  "analog_switch_io ! Suc 0 = \<lparr>port = Some GPIOA, pin = 10\<rparr>"
  "analog_switch_io ! 2 = \<lparr>port = Some GPIOA, pin = 11\<rparr>"
  "analog_switch_io ! 3 = \<lparr>port = Some GPIOA, pin = 12\<rparr>"
  by (simp_all add: analog_switch_io_def numeral_2_eq_2 numeral_3_eq_3)

lemma select_bit_test: "(led AND push_bit (i - ANALOG_SWITCH_SELECT_0) 1 \<noteq> 0) = bit led i"
  by (simp only: ANALOG_SWITCH_SELECT_0_def diff_zero flip: bit_iff_and_push_bit_not_eq_0)

lemma dac_set_led_step_eq:
  "dac_set_led_step led 0 h =
     h\<lparr>pins := (pins h)((GPIOA, 9) := level (bit led 0)),
       writes := writes h @ [Pin_write GPIOA 9 (level (bit led 0))]\<rparr>"
  "dac_set_led_step led (Suc 0) h =
     h\<lparr>pins := (pins h)((GPIOA, 10) := level (bit led (Suc 0))),
       writes := writes h @ [Pin_write GPIOA 10 (level (bit led (Suc 0)))]\<rparr>"
  "dac_set_led_step led 2 h =
     h\<lparr>pins := (pins h)((GPIOA, 11) := level (bit led 2)),
       writes := writes h @ [Pin_write GPIOA 11 (level (bit led 2))]\<rparr>"
  unfolding dac_set_led_step_def select_bit_test analog_switch_io_nth level_def [symmetric]
  by (simp_all add: gpio_output_set_port_A)

lemma dac_set_led_eq:
  "dac_set_led led h =
     h\<lparr>pins := (pins h)((GPIOA, 9) := level (bit led 0), (GPIOA, 10) := level (bit led 1),
          (GPIOA, 11) := level (bit led 2)),
       writes := writes h @ [Pin_write GPIOA 9 (level (bit led 0)),
         Pin_write GPIOA 10 (level (bit led 1)), Pin_write GPIOA 11 (level (bit led 2))]\<rparr>"
  unfolding dac_set_led_def select_range
  by (simp add: dac_set_led_step_eq)

lemma dac_enable_output_eq:
  "dac_enable_output en h =
     h\<lparr>pins := (pins h)((GPIOA, 12) := level (\<not> en)),
       writes := writes h @ [Pin_write GPIOA 12 (level (\<not> en))]\<rparr>"
  unfolding dac_enable_output_def ANALOG_SWITCH_NENABLE_def analog_switch_io_nth
  by (simp add: gpio_output_set_port_A level_def)

lemma led_update_brightness_eq:
  "led_update_brightness led b h =
    h\<lparr>pins := (pins h)((GPIOA, 9) := level (bit led 0),
        (GPIOA, 10) := level (bit led 1), (GPIOA, 11) := level (bit led 2),
        (GPIOA, 12) := GPIO_STATE_LOW),
      dhr12r1 := b AND 0xFFF,
      writes := writes h @
       [Pin_write GPIOA 12 GPIO_STATE_HIGH] @ [Dac_write (b AND 0xFFF)] @
       [Pin_write GPIOA 9 (level (bit led 0)),
        Pin_write GPIOA 10 (level (bit led 1)),
        Pin_write GPIOA 11 (level (bit led 2))] @
       [Pin_write GPIOA 12 GPIO_STATE_LOW]\<rparr>"
  unfolding led_update_brightness_def
  by (simp add: dac_enable_output_eq dac_set_led_eq dac_set_output_def level_def)

lemma low_three_bits:
  "(n::nat) mod 8 = (if bit n 0 then 1 else 0) + 2 * (if bit n 1 then 1 else 0)
      + 4 * (if bit n 2 then 1 else 0)"
proof -
  have b1: "bit n 1 = odd (n div 2)"
    by (simp add: bit_iff_odd)
  have "n div 2 div 2 = n div (2 * 2)"
    by (simp only: div_mult2_eq)
  then have b2: "bit n 2 = odd (n div 2 div 2)"
    by (simp add: bit_iff_odd)
  have "n mod 8 = take_bit (Suc (Suc (Suc 0))) n"
    by (simp add: take_bit_eq_mod)
  also have "\<dots> = n mod 2 + 2 * (n div 2 mod 2) + 4 * (n div 2 div 2 mod 2)"
    by (simp add: take_bit_Suc)
  finally show ?thesis
    unfolding b1 b2 by (simp add: bit_0 mod_2_eq_odd)
qed

lemma selected_channel_update: "selected_channel (led_update_brightness led b h) = led mod 8"
  by (simp add: selected_channel_def led_update_brightness_eq pin_bit_def level_def low_three_bits)

lemma path_enabled_update: "path_enabled (led_update_brightness led b h)"
  by (simp add: path_enabled_def led_update_brightness_eq)

lemma addressed_channels_eq:
  "addressed_channels n st = map (\<lambda>j. (led_id st + j) mod LED_COUNT) [0..<n]"
proof (induction n arbitrary: st)
  case 0
  show ?case by simp
next
  case (Suc n)
  have first: "selected_channel (led_hw (led_periodic_callback st)) = led_id st mod LED_COUNT"
    by (simp add: led_periodic_callback_def selected_channel_update LED_COUNT_def)
  have nxt: "led_id (led_periodic_callback st) = (led_id st + 1) mod LED_COUNT"
    by (simp add: led_periodic_callback_def)
  have "map (\<lambda>j. (led_id st + j) mod LED_COUNT) [0..<Suc n]
      = (led_id st mod LED_COUNT) # map (\<lambda>j. (led_id st + Suc j) mod LED_COUNT) [0..<n]"
    by (simp add: upt_conv_Cons map_Suc_upt [symmetric] del: upt_Suc)
  also have "map (\<lambda>j. (led_id st + Suc j) mod LED_COUNT) [0..<n]
      = map (\<lambda>j. ((led_id st + 1) mod LED_COUNT + j) mod LED_COUNT) [0..<n]"
    by (simp add: mod_add_left_eq)
  finally show ?case
    by (simp add: Suc.IH first nxt del: upt_Suc)
qed

lemma round_robin_list:
  assumes "k < 8"
  shows "map (\<lambda>j. (k + j) mod 8) [0..<8] = [k..<8] @ [0..<k]"
proof -
  from assms consider "k = 0" | "k = 1" | "k = 2" | "k = 3" | "k = 4" | "k = 5" | "k = 6" | "k = 7"
    by linarith
  then show ?thesis
    by cases (hypsubst, code_simp)+
qed

lemma led_state_ok_callback: "led_state_ok st \<Longrightarrow> led_state_ok (led_periodic_callback st)"
  by (simp add: led_state_ok_def led_periodic_callback_def LED_COUNT_def)

lemma led_state_ok_set: "led_state_ok st \<Longrightarrow> led_state_ok (led_set_brightness led b st)"
  by (simp add: led_state_ok_def led_set_brightness_def)

lemma led_state_ok_boot: "led_state_ok (led_boot h)"
  by (simp add: led_state_ok_def led_boot_def LED_COUNT_def)

lemma led_id_funpow:
  "led_id ((led_periodic_callback ^^ n) st) = (led_id st + n) mod LED_COUNT"
  if "led_id st < LED_COUNT"
  using that by (induction n) (simp_all add: led_periodic_callback_def mod_Suc_eq)

lemma low_12_bits: "unat (v AND (0xFFF :: 32 word)) = unat v mod 4096"
proof -
  have m: "(0xFFF :: 32 word) = mask 12" by (simp add: mask_eq_exp_minus_1)
  show ?thesis
    unfolding m
    by (simp add: unsigned_take_bit_eq take_bit_eq_mod unat_mod_distrib flip: take_bit_eq_mask)
qed

lemma call_writes_eq:
  "call_writes (dac_enable_output en) = [Pin_write GPIOA 12 (level (\<not> en))]"
  "call_writes (dac_set_output b) = [Dac_write (b AND 0xFFF)]"
  "call_writes (dac_set_led led) =
     [Pin_write GPIOA 9 (level (bit led 0)), Pin_write GPIOA 10 (level (bit led 1)),
      Pin_write GPIOA 11 (level (bit led 2))]"
  by (simp_all add: call_writes_def hw_reset_def dac_enable_output_eq dac_set_output_def
      dac_set_led_eq)

text \<open>
  C6. Every invocation of the output driver appends to the hardware writes those of
  four calls, in this order and nothing else: \<^verbatim>\<open>dac_enable_output( FALSE )\<close>, which
  drives nEnable high (the analog path closed); \<^verbatim>\<open>dac_set_output\<close> with the brightness
  of the channel, which sets the DAC register to its low 12 bits; \<^verbatim>\<open>dac_set_led\<close> with
  the channel, which sets the three select pins to bits 0, 1 and 2 of the channel
  number; \<^verbatim>\<open>dac_enable_output( TRUE )\<close>, which drives nEnable low (the path open again).
  Afterwards the select pins carry the channel number and the path is enabled.
\<close>

theorem glitch_safe_ordering:
  "writes (led_hw (led_periodic_callback st)) =
     writes (led_hw st)
       @ call_writes (dac_enable_output False)
       @ call_writes (dac_set_output (s_led_brightness st ! led_id st))
       @ call_writes (dac_set_led (led_id st))
       @ call_writes (dac_enable_output True)
   \<and> writes (led_hw (led_periodic_callback st)) =
     writes (led_hw st)
       @ [Pin_write GPIOA 12 GPIO_STATE_HIGH]
       @ [Dac_write (s_led_brightness st ! led_id st AND 0xFFF)]
       @ [Pin_write GPIOA 9 (level (bit (led_id st) 0)),
          Pin_write GPIOA 10 (level (bit (led_id st) 1)),
          Pin_write GPIOA 11 (level (bit (led_id st) 2))]
       @ [Pin_write GPIOA 12 GPIO_STATE_LOW]
   \<and> writes (led_update_brightness led b h) =
     writes h
       @ [Pin_write GPIOA 12 GPIO_STATE_HIGH]
       @ [Dac_write (b AND 0xFFF)]
       @ [Pin_write GPIOA 9 (level (bit led 0)),
          Pin_write GPIOA 10 (level (bit led 1)),
          Pin_write GPIOA 11 (level (bit led 2))]
       @ [Pin_write GPIOA 12 GPIO_STATE_LOW]
   \<and> selected_channel (led_update_brightness led b h) = led mod 8
   \<and> path_enabled (led_update_brightness led b h)"
proof -
  have w: "writes (led_update_brightness led' b' h') =
     writes h'
       @ [Pin_write GPIOA 12 GPIO_STATE_HIGH]
       @ [Dac_write (b' AND 0xFFF)]
       @ [Pin_write GPIOA 9 (level (bit led' 0)),
          Pin_write GPIOA 10 (level (bit led' 1)),
          Pin_write GPIOA 11 (level (bit led' 2))]
       @ [Pin_write GPIOA 12 GPIO_STATE_LOW]" for led' b' h'
    by (simp add: led_update_brightness_eq)
  have c: "led_hw (led_periodic_callback st)
      = led_update_brightness (led_id st) (s_led_brightness st ! led_id st) (led_hw st)"
    by (simp add: led_periodic_callback_def)
  have k: "writes (led_update_brightness led' b' h') =
     writes h'
       @ call_writes (dac_enable_output False)
       @ call_writes (dac_set_output b')
       @ call_writes (dac_set_led led')
       @ call_writes (dac_enable_output True)" for led' b' h'
    unfolding w call_writes_eq by (simp add: level_def)
  show ?thesis
    unfolding c using k w selected_channel_update path_enabled_update by blast
qed

text \<open>
  C8. With the pointer at channel \<open>k < 8\<close>, the next \<open>LED_COUNT = 8\<close> invocations
  address the channels \<open>k, \<dots>, 7, 0, \<dots>, k - 1\<close> in this order: every channel
  exactly once, increasing, wrapping to 0 after 7, and the pointer is back at \<open>k\<close>.
  From boot the order is 0 to 7. The channel addressed is read off the select pins.
\<close>

theorem round_robin_coverage:
  assumes "led_id st < LED_COUNT"
  shows "LED_COUNT = 8
    \<and> addressed_channels LED_COUNT st = [led_id st ..< LED_COUNT] @ [0 ..< led_id st]
    \<and> distinct (addressed_channels LED_COUNT st)
    \<and> set (addressed_channels LED_COUNT st) = {0 ..< LED_COUNT}
    \<and> led_id ((led_periodic_callback ^^ LED_COUNT) st) = led_id st
    \<and> addressed_channels LED_COUNT (led_boot h) = [0, 1, 2, 3, 4, 5, 6, 7]"
proof -
  have a: "addressed_channels LED_COUNT st = [led_id st ..< LED_COUNT] @ [0 ..< led_id st]"
    using assms round_robin_list [of "led_id st"]
    by (simp add: addressed_channels_eq LED_COUNT_def)
  have d: "distinct ([led_id st ..< LED_COUNT] @ [0 ..< led_id st])"
    by auto
  have s: "set ([led_id st ..< LED_COUNT] @ [0 ..< led_id st]) = {0 ..< LED_COUNT}"
    using assms by auto
  have p: "led_id ((led_periodic_callback ^^ LED_COUNT) st) = led_id st"
    using assms by (simp add: led_id_funpow)
  have b: "addressed_channels LED_COUNT (led_boot h) = [0, 1, 2, 3, 4, 5, 6, 7]"
    using round_robin_list [of 0]
    by (simp add: addressed_channels_eq LED_COUNT_def led_boot_def upt_rec)
  show ?thesis using a d s p b by (simp add: LED_COUNT_def)
qed

text \<open>Three invocations after boot the pointer is at channel 3.\<close>

theorem round_robin_coverage_witness:
  "led_id ((led_periodic_callback ^^ 3) (led_boot hw_reset)) < LED_COUNT
   \<and> addressed_channels LED_COUNT ((led_periodic_callback ^^ 3) (led_boot hw_reset))
       = [3, 4, 5, 6, 7, 0, 1, 2]"
proof -
  have h: "led_id ((led_periodic_callback ^^ 3) (led_boot hw_reset)) = 3"
    by (simp add: led_id_funpow led_boot_def LED_COUNT_def)
  then have l: "led_id ((led_periodic_callback ^^ 3) (led_boot hw_reset)) < LED_COUNT"
    by (simp add: LED_COUNT_def)
  have "[3 ..< 8] @ [0 ..< 3] = [3, 4, 5, 6, 7, 0, 1, 2::nat]"
    by (simp add: upt_rec)
  with round_robin_coverage [OF l, of hw_reset] h l show ?thesis
    by (simp add: LED_COUNT_def)
qed

text \<open>
  C10. Whatever the argument, \<^verbatim>\<open>dac_set_output\<close> writes its low 12 bits, that is the
  argument modulo 4096, a value of at most 4095, to the data register; so does an
  invocation of the driver on a channel whose brightness \<^verbatim>\<open>led_set_brightness\<close> has set
  to any 32-bit value.
\<close>

theorem dac_register_low_12_bits:
  "dhr12r1 (dac_set_output dac_val h) = dac_val AND 0xFFF
   \<and> unat (dhr12r1 (dac_set_output dac_val h)) = unat dac_val mod 4096
   \<and> unat (dhr12r1 (dac_set_output dac_val h)) \<le> 4095
   \<and> (led_state_ok st \<longrightarrow>
        unat (dhr12r1 (led_hw (led_periodic_callback (led_set_brightness (led_id st) v st))))
          = unat v mod 4096)"
proof -
  have r: "dhr12r1 (dac_set_output dac_val h) = dac_val AND 0xFFF"
    by (simp add: dac_set_output_def)
  have u: "unat (dac_val AND (0xFFF :: 32 word)) = unat dac_val mod 4096"
    by (rule low_12_bits)
  have b: "unat dac_val mod 4096 \<le> 4095"
    by simp
  have c: "unat (dhr12r1 (led_hw (led_periodic_callback (led_set_brightness (led_id st) v st))))
          = unat v mod 4096" if "led_state_ok st"
  proof -
    from that have i: "led_id st < length (s_led_brightness st)" "led_id st < LED_COUNT"
      by (simp_all add: led_state_ok_def)
    then show ?thesis
      by (simp add: led_periodic_callback_def led_set_brightness_def led_update_brightness_eq
          low_12_bits)
  qed
  show ?thesis using r u b c by simp
qed

text \<open>The brightness 5000 stored for channel 0 at boot reaches the register as 904.\<close>

theorem dac_register_low_12_bits_witness:
  "led_state_ok (led_boot hw_reset)
   \<and> unat (dhr12r1 (led_hw (led_periodic_callback
        (led_set_brightness (led_id (led_boot hw_reset)) 5000 (led_boot hw_reset))))) = 904"
proof -
  have ok: "led_state_ok (led_boot hw_reset)" by (rule led_state_ok_boot)
  from dac_register_low_12_bits [of _ _ "led_boot hw_reset" 5000, THEN conjunct2, THEN conjunct2,
      THEN conjunct2, rule_format, OF ok] ok
  show ?thesis by simp
qed

section \<open>Properties of the animation engine\<close>

text \<open>The wrap-around is the identity inside the range and shifts by \<open>2^32\<close> just outside it.\<close>

lemma s32_id: "- (2 ^ 31) \<le> x \<Longrightarrow> x < 2 ^ 31 \<Longrightarrow> s32 x = x"
  by (simp add: s32_def)

lemma mod_shift_down: "m \<le> y \<Longrightarrow> y < 2 * m \<Longrightarrow> y mod m = y - (m::int)"
  using minus_mod_self2 [of y m] mod_pos_pos_trivial [of "y - m" m] by simp

lemma mod_shift_up: "- m \<le> y \<Longrightarrow> y < 0 \<Longrightarrow> y mod m = y + (m::int)"
  using mod_add_self2 [of y m] mod_pos_pos_trivial [of "y + m" m] by simp

lemma s32_over: "2 ^ 31 \<le> x \<Longrightarrow> x < 2 ^ 31 + 2 ^ 32 \<Longrightarrow> s32 x = x - 2 ^ 32"
  unfolding s32_def using mod_shift_down [of "2 ^ 32" "x + 2 ^ 31"] by simp

lemma s32_under: "- (2 ^ 31) - 2 ^ 32 \<le> x \<Longrightarrow> x < - (2 ^ 31) \<Longrightarrow> s32 x = x + 2 ^ 32"
  unfolding s32_def using mod_shift_up [of "2 ^ 32" "x + 2 ^ 31"] by simp

lemma s32_range: "is_int32 (s32 x)"
  by (simp add: s32_def is_int32_def)

lemma s16_id: "- (2 ^ 15) \<le> x \<Longrightarrow> x < 2 ^ 15 \<Longrightarrow> s16 x = x"
  by (simp add: s16_def)

text \<open>Truncating division on the signs that occur.\<close>

lemma c_div_nonneg: "0 \<le> a \<Longrightarrow> 0 < b \<Longrightarrow> c_div a b = a div b"
  by (simp add: c_div_def)

lemma c_div_neg: "a \<le> 0 \<Longrightarrow> 0 < b \<Longrightarrow> c_div a b = - ((- a) div b)"
  by (cases "a = 0") (simp_all add: c_div_def)

text \<open>
  The interpolation of \<^verbatim>\<open>calculate_brightness_unsmoothed\<close>: \<open>x\<close> ticks into a segment of
  \<open>T\<close> ticks that leads from brightness \<open>a\<close> to brightness \<open>b\<close>.
\<close>

lemma interpolation_bounds:
  assumes x: "0 \<le> x" "x < T" and a: "0 \<le> a" "a \<le> 1000" and b: "0 \<le> b" "b \<le> 1000"
  shows "0 \<le> c_div (x * (b - a)) T + a \<and> c_div (x * (b - a)) T + a \<le> 1000"
proof (cases "a \<le> b")
  case True
  with x have n: "0 \<le> x * (b - a)" by simp
  have T: "0 < T" using x by simp
  have "x * (b - a) \<le> T * (b - a)"
    using x True by (intro mult_right_mono) simp_all
  then have "x * (b - a) div T \<le> T * (b - a) div T"
    using T by (intro zdiv_mono1) simp_all
  then have "x * (b - a) div T \<le> b - a" using T by simp
  moreover have "0 \<le> x * (b - a) div T" using n T by (simp add: pos_imp_zdiv_nonneg_iff)
  ultimately show ?thesis using a b by (simp add: c_div_nonneg [OF n T])
next
  case False
  then have ba: "0 \<le> a - b" by simp
  with x have n: "x * (b - a) \<le> 0" by (simp add: mult_nonneg_nonpos)
  have T: "0 < T" using x by simp
  have e: "- (x * (b - a)) = x * (a - b)" by (simp add: algebra_simps)
  have "x * (a - b) \<le> T * (a - b)"
    using x ba by (intro mult_right_mono) simp_all
  then have "x * (a - b) div T \<le> T * (a - b) div T"
    using T by (intro zdiv_mono1) simp_all
  then have "x * (a - b) div T \<le> a - b" using T by simp
  moreover have "0 \<le> x * (a - b) div T" using x ba T by (simp add: pos_imp_zdiv_nonneg_iff)
  ultimately show ?thesis using a b by (simp add: c_div_neg [OF n T] e)
qed

text \<open>The length loop adds up exactly the durations through the terminator.\<close>

lemma flash_length_loop_eq:
  "list_ex (\<lambda>p. target p = 0) ps \<Longrightarrow> flash_length_loop ps acc = Some (acc + pattern_duration ps)"
  by (induction ps arbitrary: acc) (auto simp: pattern_duration_def through_terminator_def)

lemma pattern_duration_bounds:
  "list_all point_ok ps \<Longrightarrow> 0 \<le> pattern_duration ps"
  by (induction ps) (simp_all add: pattern_duration_def through_terminator_def point_ok_def)

text \<open>
  The search loop ends inside the row when the row has a terminator, and the segment it
  finds contains the flash time.
\<close>

lemma unsmoothed_loop_Some:
  "list_ex (\<lambda>p. target p = 0) ps \<Longrightarrow> \<exists>r. unsmoothed_loop prv ps e t = Some r"
  by (induction ps arbitrary: prv e) (auto simp: Let_def)

lemma unsmoothed_loop_found:
  assumes "unsmoothed_loop prv ps e t = Some (cur, prv', e')"
    and "list_all point_ok ps" and "0 \<le> target prv" "target prv \<le> 1000" and "e \<le> t"
    and "time cur \<noteq> 0"
  shows "e' - time cur \<le> t \<and> t < e' \<and> 0 \<le> target cur \<and> target cur \<le> 1000
      \<and> 0 \<le> target prv' \<and> target prv' \<le> 1000"
  using assms
proof (induction ps arbitrary: prv e)
  case Nil
  then show ?case by simp
next
  case (Cons p ps)
  show ?case
  proof (cases "t < e + time p")
    case True
    with Cons.prems show ?thesis by (auto simp: point_ok_def Let_def)
  next
    case False
    show ?thesis
    proof (cases "target p = 0")
      case True
      with False Cons.prems show ?thesis by (auto simp: zero_point_def Let_def)
    next
      case nz: False
      from False nz Cons.prems(1)
      have r: "unsmoothed_loop p ps (e + time p) t = Some (cur, prv', e')"
        by (simp add: Let_def)
      from Cons.prems(2) have okl: "list_all point_ok ps" and okp: "point_ok p"
        by simp_all
      from okp have "0 \<le> target p" "target p \<le> 1000"
        by (simp_all add: point_ok_def)
      note ok = okl this
      from False have le: "e + time p \<le> t" by simp
      from Cons.IH [OF r ok le Cons.prems(6)] show ?thesis .
    qed
  qed
qed

lemma unsmoothed_row_bounds:
  assumes "flash_pattern_of fid = Some ps" "row_ok ps"
  shows "\<exists>b. calculate_brightness_unsmoothed fid t = Some b \<and> 0 \<le> b \<and> b \<le> 1000"
proof (cases "t < 0")
  case True
  then show ?thesis by (simp add: calculate_brightness_unsmoothed_def)
next
  case False
  from assms(2) have ex: "list_ex (\<lambda>p. target p = 0) ps" and ok: "list_all point_ok ps"
    by (simp_all add: row_ok_def)
  from unsmoothed_loop_Some [OF ex, of zero_point 0 t]
  obtain cur prv e where r: "unsmoothed_loop zero_point ps 0 t = Some (cur, prv, e)"
    by (metis prod_cases3)
  have v: "calculate_brightness_unsmoothed fid t =
      Some (if time cur \<noteq> 0
            then c_div ((time cur - (e - t)) * (target cur - target prv)) (time cur) + target prv
            else 0)"
    using False assms(1) r by (simp add: calculate_brightness_unsmoothed_def)
  show ?thesis
  proof (cases "time cur = 0")
    case True
    with v show ?thesis by simp
  next
    case nz: False
    from False have "0 \<le> t" by simp
    from unsmoothed_loop_found [OF r ok _ _ this nz]
    have f: "e - time cur \<le> t" "t < e" "0 \<le> target cur" "target cur \<le> 1000"
      "0 \<le> target prv" "target prv \<le> 1000"
      by (simp_all add: zero_point_def)
    have "0 \<le> time cur - (e - t)" "time cur - (e - t) < time cur"
      using f by simp_all
    from interpolation_bounds [OF this f(5,6,3,4)] v nz show ?thesis by simp
  qed
qed

text \<open>The six rows of \<^verbatim>\<open>flash_patterns\<close> are well formed and at most 1000 ticks long.\<close>

lemma defined_rows:
  assumes "fid < FLASH_COUNT"
  shows "flash_pattern_of fid = Some (flash_patterns ! fid)" "row_ok (flash_patterns ! fid)"
    "pattern_duration (flash_patterns ! fid) \<le> 1000"
proof -
  show "flash_pattern_of fid = Some (flash_patterns ! fid)"
    using assms by (simp add: flash_pattern_of_def)
  from assms consider "fid = 0" | "fid = 1" | "fid = 2" | "fid = 3" | "fid = 4" | "fid = 5"
    unfolding FLASH_COUNT_def by linarith
  then show "row_ok (flash_patterns ! fid)"
    by cases (hypsubst, code_simp)+
  from assms consider "fid = 0" | "fid = 1" | "fid = 2" | "fid = 3" | "fid = 4" | "fid = 5"
    unfolding FLASH_COUNT_def by linarith
  then show "pattern_duration (flash_patterns ! fid) \<le> 1000"
    by cases (hypsubst, code_simp)+
qed

lemma flash_length_defined:
  assumes "fid < FLASH_COUNT"
  shows "calculate_flash_length fid = Some (pattern_duration (flash_patterns ! fid))"
  using defined_rows [OF assms]
  by (simp add: calculate_flash_length_def row_ok_def flash_length_loop_eq)

lemma unsmoothed_bounds:
  "fid < FLASH_COUNT \<Longrightarrow>
   \<exists>b. calculate_brightness_unsmoothed fid t = Some b \<and> 0 \<le> b \<and> b \<le> 1000"
  using defined_rows unsmoothed_row_bounds by blast

text \<open>One term \<^verbatim>\<open>(b2 + b1) * (t2 - t1)\<close> of the integration.\<close>

lemma weighted_step:
  assumes "0 \<le> b1" "b1 \<le> 1000" "0 \<le> b2" "b2 \<le> 1000" "t1 \<le> (t2::int)"
  shows "0 \<le> (b2 + b1) * (t2 - t1)" "(b2 + b1) * (t2 - t1) \<le> 2000 * (t2 - t1)"
proof -
  show "0 \<le> (b2 + b1) * (t2 - t1)" using assms by simp
  show "(b2 + b1) * (t2 - t1) \<le> 2000 * (t2 - t1)"
    using assms by (intro mult_right_mono) simp_all
qed

text \<open>
  The invariant of the integration loop: the running sum is never negative and is at
  most 2000 times the part of the window that lies before \<^verbatim>\<open>flash_point_start_time\<close>.
\<close>

lemma smoothed_loop_bounds:
  assumes u: "\<And>t. \<exists>b. calculate_brightness_unsmoothed fid t = Some b \<and> 0 \<le> b \<and> b \<le> 1000"
  shows "list_all point_ok ps \<Longrightarrow> list_ex (\<lambda>p. target p = 0) ps \<Longrightarrow> s < e \<Longrightarrow> start \<le> e \<Longrightarrow>
    0 \<le> acc \<Longrightarrow> acc \<le> 2000 * (max start s - s) \<Longrightarrow>
    \<exists>r. smoothed_loop fid ps start acc s e = Some r \<and> 0 \<le> r \<and> r \<le> 2000 * (e - s)"
proof (induction ps arbitrary: start acc)
  case Nil
  then show ?case by simp
next
  case (Cons p ps)
  define en where "en = start + time p"
  define t2 where "t2 = min en e"
  from Cons.prems(1) have okp: "point_ok p" and okl: "list_all point_ok ps"
    by simp_all
  from okp have en: "start \<le> en"
    by (simp add: point_ok_def en_def)
  have t2e: "t2 \<le> e"
    by (simp add: t2_def)
  have rest: "list_ex (\<lambda>p. target p = 0) ps" if "target p \<noteq> 0"
    using that Cons.prems(2) by simp
  show ?case
  proof (cases "interval_start s start en")
    case None
    then have s1: "start \<le> s" "en \<le> s"
      by (auto simp: interval_start_def split: if_splits)
    with Cons.prems(5,6) have a0: "acc = 0"
      by simp
    show ?thesis
    proof (cases "target p = 0")
      case True
      with None a0 Cons.prems(3) show ?thesis
        by (simp add: en_def Let_def)
    next
      case False
      have "\<exists>r. smoothed_loop fid ps en acc s e = Some r \<and> 0 \<le> r \<and> r \<le> 2000 * (e - s)"
        by (rule Cons.IH [OF okl rest [OF False] Cons.prems(3)])
           (use s1 a0 Cons.prems(3) in simp_all)
      with None False show ?thesis
        by (simp add: en_def Let_def)
    qed
  next
    case (Some t1)
    then have t1: "s \<le> t1" "t1 \<le> t2" "t1 = s \<and> start \<le> s \<or> t1 = start \<and> s < start"
      using en Cons.prems(3,4)
      by (auto simp: interval_start_def t2_def split: if_splits)
    from u obtain b1 where b1: "calculate_brightness_unsmoothed fid t1 = Some b1"
      "0 \<le> b1" "b1 \<le> 1000" by blast
    from u obtain b2 where b2: "calculate_brightness_unsmoothed fid t2 = Some b2"
      "0 \<le> b2" "b2 \<le> 1000" by blast
    define acc' where "acc' = acc + (b2 + b1) * (t2 - t1)"
    from weighted_step [OF b1(2,3) b2(2,3) t1(2)]
    have w: "0 \<le> (b2 + b1) * (t2 - t1)" "(b2 + b1) * (t2 - t1) \<le> 2000 * (t2 - t1)" .
    have lo: "0 \<le> acc'"
      using w(1) Cons.prems(5) by (simp add: acc'_def)
    have "acc \<le> 2000 * (t1 - s)"
      using t1(3) Cons.prems(6) by auto
    with w(2) have hi: "acc' \<le> 2000 * (t2 - s)"
      by (simp add: acc'_def)
    have step: "smoothed_loop fid (p # ps) start acc s e =
        (if t2 = e then Some acc'
         else if target p = 0 then Some acc'
         else smoothed_loop fid ps t2 acc' s e)"
      unfolding acc'_def t2_def en_def
      using Some [unfolded en_def] b1(1) b2(1) [unfolded t2_def en_def]
      by (simp add: Let_def)
    show ?thesis
    proof (cases "t2 = e \<or> target p = 0")
      case True
      with step have "smoothed_loop fid (p # ps) start acc s e = Some acc'"
        by auto
      with lo hi t2e show ?thesis by simp
    next
      case False
      then have nz: "target p \<noteq> 0" and ne: "t2 \<noteq> e" by simp_all
      have "max t2 s = t2" using t1 by simp
      with hi have hi': "acc' \<le> 2000 * (max t2 s - s)" by simp
      have "\<exists>r. smoothed_loop fid ps t2 acc' s e = Some r \<and> 0 \<le> r \<and> r \<le> 2000 * (e - s)"
        by (rule Cons.IH [OF okl rest [OF nz] Cons.prems(3) t2e lo hi'])
      with step nz ne show ?thesis by simp
    qed
  qed
qed

text \<open>The half width and the width for a smoothing value between 0 and \<open>2^15 - 1\<close>.\<close>

lemma smoothing_width:
  assumes "0 \<le> sm" "sm < 2 ^ 15"
  shows "0 \<le> sm div 2" "sm div 2 \<le> 16383" "s16 (sm div 2 * 2 + 1) = sm div 2 * 2 + 1"
    "1 \<le> sm div 2 * 2 + 1" "sm div 2 * 2 + 1 \<le> 32767"
proof -
  show h0: "0 \<le> sm div 2" using assms by simp
  show h1: "sm div 2 \<le> 16383" using assms by simp
  show "s16 (sm div 2 * 2 + 1) = sm div 2 * 2 + 1"
    using h0 h1 by (intro s16_id) simp_all
  show "1 \<le> sm div 2 * 2 + 1" using h0 by simp
  show "sm div 2 * 2 + 1 \<le> 32767" using h1 by simp
qed

lemma smoothed_unfold:
  assumes "fid < FLASH_COUNT" "0 \<le> sm" "sm < 2 ^ 15"
  shows "calculate_brightness_smoothed fid t sm =
    (if s32 (s32 (t - sm div 2) + (sm div 2 * 2 + 1)) < 0
        \<or> s32 (t - sm div 2) > pattern_duration (flash_patterns ! fid)
     then Some 0
     else case smoothed_loop fid (flash_patterns ! fid) 0 0 (s32 (t - sm div 2))
                 (s32 (s32 (t - sm div 2) + (sm div 2 * 2 + 1))) of
            None \<Rightarrow> None
          | Some b \<Rightarrow> Some (c_div b (2 * (sm div 2 * 2 + 1))))"
  unfolding calculate_brightness_smoothed_def Let_def
    defined_rows(1) [OF assms(1)] flash_length_defined [OF assms(1)]
    smoothing_width(3) [OF assms(2,3)]
  by simp

lemma average_bounds:
  assumes "0 \<le> r" "r \<le> 2000 * w" "1 \<le> (w::int)"
  shows "0 \<le> c_div r (2 * w)" "c_div r (2 * w) \<le> 1000"
proof -
  have w: "0 < 2 * w" using assms(3) by simp
  have c: "c_div r (2 * w) = r div (2 * w)"
    by (rule c_div_nonneg [OF assms(1) w])
  show "0 \<le> c_div r (2 * w)"
    unfolding c using assms(1) w by (simp add: pos_imp_zdiv_nonneg_iff)
  have "r div (2 * w) \<le> (2 * w) * 1000 div (2 * w)"
    using assms(2) w by (intro zdiv_mono1) simp_all
  also have "\<dots> = 1000"
    using w by simp
  finally show "c_div r (2 * w) \<le> 1000"
    unfolding c .
qed

lemma smoothed_bounds:
  assumes fid: "fid < FLASH_COUNT" and t: "is_int32 t" and sm: "0 \<le> sm" "sm < 2 ^ 15"
  shows "\<exists>b. calculate_brightness_smoothed fid t sm = Some b \<and> 0 \<le> b \<and> b \<le> 1000"
proof -
  define w where "w = sm div 2 * 2 + 1"
  define ss where "ss = s32 (t - sm div 2)"
  define se where "se = s32 (ss + w)"
  define L where "L = pattern_duration (flash_patterns ! fid)"
  note wd = smoothing_width [OF sm, folded w_def]
  have unf: "calculate_brightness_smoothed fid t sm =
    (if se < 0 \<or> ss > L then Some 0
     else case smoothed_loop fid (flash_patterns ! fid) 0 0 ss se of
            None \<Rightarrow> None
          | Some b \<Rightarrow> Some (c_div b (2 * w)))"
    unfolding se_def ss_def w_def L_def by (rule smoothed_unfold [OF fid sm])
  show ?thesis
  proof (cases "se < 0 \<or> ss > L")
    case True
    with unf show ?thesis by simp
  next
    case False
    then have se0: "0 \<le> se" and ssL: "ss \<le> L" by simp_all
    have L: "L \<le> 1000"
      unfolding L_def by (rule defined_rows(3) [OF fid])
    have "is_int32 ss"
      unfolding ss_def by (rule s32_range)
    then have "- (2 ^ 31) \<le> ss + w" "ss + w < 2 ^ 31"
      using ssL L wd(4,5) by (simp_all add: is_int32_def)
    then have se: "se = ss + w"
      unfolding se_def by (rule s32_id)
    from defined_rows(2) [OF fid] have ok: "list_all point_ok (flash_patterns ! fid)"
      and ex: "list_ex (\<lambda>p. target p = 0) (flash_patterns ! fid)"
      by (simp_all add: row_ok_def)
    have "\<exists>r. smoothed_loop fid (flash_patterns ! fid) 0 0 ss se = Some r
        \<and> 0 \<le> r \<and> r \<le> 2000 * (se - ss)"
      by (rule smoothed_loop_bounds [OF unsmoothed_bounds [OF fid] ok ex])
         (use se wd(4) se0 in simp_all)
    then obtain r where r: "smoothed_loop fid (flash_patterns ! fid) 0 0 ss se = Some r"
      "0 \<le> r" "r \<le> 2000 * w"
      using se by auto
    from average_bounds [OF r(2,3) wd(4)] unf False r(1) show ?thesis
      by simp
  qed
qed

text \<open>
  A window that ends at time 0 passes the rejection test (\<^verbatim>\<open>smooth_end < 0\<close> is false);
  the loop then integrates over the empty interval from 0 to 0 and leaves at once.
\<close>

lemma smoothed_loop_window_before:
  assumes u: "\<exists>b. calculate_brightness_unsmoothed fid 0 = Some b"
    and ps: "list_all point_ok ps" "list_ex (\<lambda>p. target p = 0) ps" and ss: "ss < 0"
  shows "smoothed_loop fid ps 0 0 ss 0 = Some 0"
proof (cases ps)
  case Nil
  with ps(2) show ?thesis by simp
next
  case (Cons p rest)
  with ps(1) have "0 \<le> time p" by (simp add: point_ok_def)
  then have m: "min (time p) 0 = 0" by simp
  from ss have i: "interval_start ss 0 (time p) = Some 0"
    by (simp add: interval_start_def)
  from u obtain b where "calculate_brightness_unsmoothed fid 0 = Some b" by blast
  with Cons i m show ?thesis by (simp add: Let_def)
qed

text \<open>A nonempty window with no time in \<open>[0, L]\<close> ends by 0 or starts after \<open>L\<close>.\<close>

lemma window_outside:
  assumes "\<forall>\<tau>::int. s \<le> \<tau> \<and> \<tau> < e \<longrightarrow> \<tau> < 0 \<or> L < \<tau>" "s < e" "0 \<le> L"
  shows "e \<le> 0 \<or> L < s"
proof (rule ccontr)
  assume "\<not> (e \<le> 0 \<or> L < s)"
  then have "s \<le> max s 0 \<and> max s 0 < e" "\<not> (max s 0 < 0 \<or> L < max s 0)"
    using assms(2,3) by auto
  with assms(1) show False by blast
qed

lemma smoothed_rejection:
  assumes fid: "fid < FLASH_COUNT" and t: "is_int32 t" and sm: "0 \<le> sm" "sm < 2 ^ 15"
    and out: "t - sm div 2 + (sm div 2 * 2 + 1) \<le> 0 \<or> pattern_duration (flash_patterns ! fid) < t - sm div 2"
  shows "calculate_brightness_smoothed fid t sm = Some 0"
proof -
  define w where "w = sm div 2 * 2 + 1"
  define ss where "ss = s32 (t - sm div 2)"
  define se where "se = s32 (ss + w)"
  define L where "L = pattern_duration (flash_patterns ! fid)"
  note wd = smoothing_width [OF sm, folded w_def]
  note hf = smoothing_width(1,2) [OF sm]
  have unf: "calculate_brightness_smoothed fid t sm =
    (if se < 0 \<or> ss > L then Some 0
     else case smoothed_loop fid (flash_patterns ! fid) 0 0 ss se of
            None \<Rightarrow> None
          | Some b \<Rightarrow> Some (c_div b (2 * w)))"
    unfolding se_def ss_def w_def L_def by (rule smoothed_unfold [OF fid sm])
  have L: "L \<le> 1000"
    unfolding L_def by (rule defined_rows(3) [OF fid])
  from t have t': "- (2 ^ 31) \<le> t" "t < 2 ^ 31" by (simp_all add: is_int32_def)
  show ?thesis
  proof (cases "t - sm div 2 < - (2 ^ 31)")
    case True
    have "ss = t - sm div 2 + 2 ^ 32"
      unfolding ss_def using True t' hf by (intro s32_under) simp_all
    with t' hf L have "ss > L" by simp
    with unf show ?thesis by simp
  next
    case False
    have ss: "ss = t - sm div 2"
      unfolding ss_def using False t' hf by (intro s32_id) simp_all
    show ?thesis
    proof (cases "ss + w < 2 ^ 31")
      case over: False
      have "se = ss + w - 2 ^ 32"
        unfolding se_def using over ss t' hf wd(5) by (intro s32_over) simp_all
      with ss t' hf wd(5) have "se < 0" by simp
      with unf show ?thesis by simp
    next
      case True
      have se: "se = ss + w"
        unfolding se_def using True ss False wd(4) by (intro s32_id) simp_all
      show ?thesis
      proof (cases "se < 0 \<or> ss > L")
        case True
        with unf show ?thesis by simp
      next
        case inside: False
        with out have se0: "se = 0"
          unfolding se ss w_def L_def by simp
        with se wd(4) have neg: "ss < 0" by simp
        from defined_rows(2) [OF fid] have ok: "list_all point_ok (flash_patterns ! fid)"
          and ex: "list_ex (\<lambda>p. target p = 0) (flash_patterns ! fid)"
          by (simp_all add: row_ok_def)
        from unsmoothed_bounds [OF fid, of 0]
        have "\<exists>b. calculate_brightness_unsmoothed fid 0 = Some b" by blast
        from smoothed_loop_window_before [OF this ok ex neg] unf inside se0
        show ?thesis by (simp add: c_div_def)
      qed
    qed
  qed
qed

text \<open>
  C7. \<^verbatim>\<open>calculate_flash_length\<close> returns the sum of the durations of the points up to
  and including the first one whose target is 0: for every row that has such a point,
  hence for each of the six defined patterns. The pattern \<open>{(500,100),(500,800),(0,100)}\<close>
  is \<^verbatim>\<open>FLASH_PHOTINUS_LEWISI\<close>, and its length is 1000.
\<close>

theorem flash_length_sum:
  "(\<forall>ps. (\<exists>p \<in> set ps. target p = 0) \<longrightarrow> flash_length_loop ps 0 = Some (pattern_duration ps))
   \<and> (\<forall>fid < FLASH_COUNT.
        calculate_flash_length fid = Some (pattern_duration (flash_patterns ! fid)))
   \<and> through_terminator (flash_patterns ! FLASH_PHOTINUS_LEWISI)
        = [\<lparr>target = 500, time = 100\<rparr>, \<lparr>target = 500, time = 800\<rparr>, \<lparr>target = 0, time = 100\<rparr>]
   \<and> calculate_flash_length FLASH_PHOTINUS_LEWISI = Some 1000"
proof -
  have g: "flash_length_loop ps 0 = Some (pattern_duration ps)"
    if "\<exists>p \<in> set ps. target p = 0" for ps
    using that flash_length_loop_eq [of ps 0] by (simp add: list_ex_iff)
  have l: "through_terminator (flash_patterns ! FLASH_PHOTINUS_LEWISI)
        = [\<lparr>target = 500, time = 100\<rparr>, \<lparr>target = 500, time = 800\<rparr>, \<lparr>target = 0, time = 100\<rparr>]"
    by code_simp
  have v: "calculate_flash_length FLASH_PHOTINUS_LEWISI = Some 1000"
    by code_simp
  show ?thesis
    using g flash_length_defined l v by blast
qed

text \<open>The seven points of \<^verbatim>\<open>FLASH_PHOTINUS_XANTHOPHOTIS\<close> add up to 900.\<close>

theorem flash_length_sum_witness:
  "FLASH_PHOTINUS_XANTHOPHOTIS < FLASH_COUNT
   \<and> calculate_flash_length FLASH_PHOTINUS_XANTHOPHOTIS = Some (200 + 100 + 200 + 100 + 100 + 100 + 100)"
proof -
  have h: "FLASH_PHOTINUS_XANTHOPHOTIS < FLASH_COUNT"
    by (simp add: FLASH_PHOTINUS_XANTHOPHOTIS_def FLASH_COUNT_def)
  have d: "pattern_duration (flash_patterns ! FLASH_PHOTINUS_XANTHOPHOTIS) = 900"
    by code_simp
  from flash_length_sum [THEN conjunct2, THEN conjunct1, rule_format, OF h] h d
  show ?thesis by simp
qed

text \<open>
  C9. For every defined flash pattern, every \<^verbatim>\<open>int32_t\<close> flash time and every
  nonnegative \<^verbatim>\<open>int16_t\<close> smoothing value, \<^verbatim>\<open>calculate_brightness_unsmoothed\<close> and
  \<^verbatim>\<open>calculate_brightness_smoothed\<close> both return, and what they return lies between 0 and
  1000.
\<close>

theorem brightness_in_range:
  assumes "fid < FLASH_COUNT" "is_int32 t" "is_int16 sm" "0 \<le> sm"
  shows "(\<exists>b. calculate_brightness_unsmoothed fid t = Some b \<and> 0 \<le> b \<and> b \<le> 1000)
    \<and> (\<exists>b. calculate_brightness_smoothed fid t sm = Some b \<and> 0 \<le> b \<and> b \<le> 1000)"
proof -
  from assms(3) have "sm < 2 ^ 15" by (simp add: is_int16_def)
  from smoothed_bounds [OF assms(1,2,4) this] unsmoothed_bounds [OF assms(1)]
  show ?thesis by blast
qed

text \<open>\<^verbatim>\<open>FLASH_PHOTINUS_LEWISI\<close> at time 99, unsmoothed and with smoothing 50.\<close>

theorem brightness_in_range_witness:
  "FLASH_PHOTINUS_LEWISI < FLASH_COUNT \<and> is_int32 99 \<and> is_int16 50 \<and> (0::int) \<le> 50
   \<and> calculate_brightness_unsmoothed FLASH_PHOTINUS_LEWISI 99 = Some 495
   \<and> calculate_brightness_smoothed FLASH_PHOTINUS_LEWISI 99 50 = Some 466
   \<and> (\<exists>b. calculate_brightness_smoothed FLASH_PHOTINUS_LEWISI 99 50 = Some b \<and> 0 \<le> b \<and> b \<le> 1000)"
proof -
  have h: "FLASH_PHOTINUS_LEWISI < FLASH_COUNT" "is_int32 99" "is_int16 50" "(0::int) \<le> 50"
    by (simp_all add: FLASH_PHOTINUS_LEWISI_def FLASH_COUNT_def is_int32_def is_int16_def)
  have v: "calculate_brightness_unsmoothed FLASH_PHOTINUS_LEWISI 99 = Some 495"
    "calculate_brightness_smoothed FLASH_PHOTINUS_LEWISI 99 50 = Some 466"
    by code_simp+
  from brightness_in_range [OF h] h v show ?thesis by blast
qed

text \<open>
  C4, as the code has it. For every defined flash pattern, every \<^verbatim>\<open>int32_t\<close> flash
  time \<open>t\<close> and every nonnegative \<^verbatim>\<open>int16_t\<close> smoothing value, with
  \<open>half = smoothing >> 1\<close> and \<open>width = 2 * half + 1\<close>: when the window
  \<open>[t - half, t - half + width)\<close> has no time in common with \<open>[0, pattern_length]\<close>, the
  smoothed brightness is 0. The pattern length is what \<^verbatim>\<open>calculate_flash_length\<close>
  returns.
\<close>

theorem smoothing_window_rejection:
  assumes "fid < FLASH_COUNT" "is_int32 t" "is_int16 sm" "0 \<le> sm"
    and "half = sm div 2" "width = 2 * half + 1"
    and "pattern_length = pattern_duration (flash_patterns ! fid)"
    and "{t - half ..< t - half + width} \<inter> {0 .. pattern_length} = {}"
  shows "calculate_flash_length fid = Some pattern_length
    \<and> calculate_brightness_smoothed fid t sm = Some 0"
proof -
  from assms(3) have sm: "sm < 2 ^ 15" by (simp add: is_int16_def)
  from assms(4,5) have "0 \<le> half" by simp
  then have w: "t - half < t - half + width" using assms(6) by simp
  from defined_rows(2) [OF assms(1)] have "0 \<le> pattern_length"
    unfolding assms(7) by (simp add: row_ok_def pattern_duration_bounds)
  moreover have "\<forall>\<tau>. t - half \<le> \<tau> \<and> \<tau> < t - half + width \<longrightarrow> \<tau> < 0 \<or> pattern_length < \<tau>"
    using assms(8) by (auto simp: disjoint_iff)
  ultimately have "t - half + width \<le> 0 \<or> pattern_length < t - half"
    using window_outside [OF _ w] by blast
  then have "t - sm div 2 + (sm div 2 * 2 + 1) \<le> 0
      \<or> pattern_duration (flash_patterns ! fid) < t - sm div 2"
    unfolding assms(5,6,7) by (simp add: mult.commute)
  from smoothed_rejection [OF assms(1,2,4) sm this] flash_length_defined [OF assms(1)] assms(7)
  show ?thesis by simp
qed

text \<open>
  The window \<open>[-201, 0)\<close> of \<^verbatim>\<open>FLASH_PHOTINUS_PALLENS\<close>: it ends at 0, where the
  rejection test of the source does not fire and the loop returns the 0.
\<close>

theorem smoothing_window_rejection_witness:
  "FLASH_PHOTINUS_PALLENS < FLASH_COUNT \<and> is_int32 (- 101) \<and> is_int16 200 \<and> (0::int) \<le> 200
   \<and> {- 101 - 200 div 2 ..< - 101 - 200 div 2 + (2 * (200 div 2) + 1)} \<inter> {0 .. 1000} = ({} :: int set)
   \<and> calculate_flash_length FLASH_PHOTINUS_PALLENS = Some 1000
   \<and> calculate_brightness_smoothed FLASH_PHOTINUS_PALLENS (- 101) 200 = Some 0"
proof -
  have h: "FLASH_PHOTINUS_PALLENS < FLASH_COUNT" "is_int32 (- 101)" "is_int16 200" "(0::int) \<le> 200"
    by (simp_all add: FLASH_PHOTINUS_PALLENS_def FLASH_COUNT_def is_int32_def is_int16_def)
  have a: "(100::int) = 200 div 2" "(201::int) = 2 * 100 + 1" by simp_all
  have d: "(1000::int) = pattern_duration (flash_patterns ! FLASH_PHOTINUS_PALLENS)"
    by code_simp
  have w: "{- 101 - 100 ..< - 101 - 100 + 201} \<inter> {0 .. 1000} = ({} :: int set)"
    by auto
  from smoothing_window_rejection [OF h a d w] h w show ?thesis by simp
qed

text \<open>
  C4 as the claim words it, for every smoothing value, does not hold. For
  \<^verbatim>\<open>FLASH_PHOTINUS_LEWISI\<close> (length 1000) at flash time 100 with smoothing -50 the half
  width is -25 and the width -49: the window \<open>[125, 76)\<close> has no time in it, so none
  in \<open>[0, 1000]\<close>, and neither rejection test fires (\<open>76 \<ge> 0\<close>, \<open>125 \<le> 1000\<close>); the
  loop returns \<open>(380 + 500) * (76 - 125)\<close>, which divided by \<open>2 * -49\<close> is 440.
\<close>

theorem smoothing_window_rejection_counterexample:
  "FLASH_PHOTINUS_LEWISI < FLASH_COUNT \<and> is_int32 100 \<and> is_int16 (- 50)
   \<and> (- 50) div 2 = (- 25 :: int) \<and> 2 * (- 25) + 1 = (- 49 :: int)
   \<and> pattern_duration (flash_patterns ! FLASH_PHOTINUS_LEWISI) = 1000
   \<and> {100 - (- 25) ..< 100 - (- 25) + (- 49)} \<inter> {0 .. 1000} = ({} :: int set)
   \<and> calculate_brightness_smoothed FLASH_PHOTINUS_LEWISI 100 (- 50) = Some 440"
proof -
  have "FLASH_PHOTINUS_LEWISI < FLASH_COUNT" "is_int32 100" "is_int16 (- 50)"
    by (simp_all add: FLASH_PHOTINUS_LEWISI_def FLASH_COUNT_def is_int32_def is_int16_def)
  moreover have "pattern_duration (flash_patterns ! FLASH_PHOTINUS_LEWISI) = 1000"
    by code_simp
  moreover have "calculate_brightness_smoothed FLASH_PHOTINUS_LEWISI 100 (- 50) = Some 440"
    by code_simp
  moreover have "{100 - (- 25) ..< 100 - (- 25) + (- 49)} \<inter> {0 .. 1000} = ({} :: int set)"
    by auto
  ultimately show ?thesis by simp
qed

text \<open>
  The animation engine keeps \<open>firefly_ok\<close>: a new flash draws its pattern from the six
  defined ones and its smoothing from 50..500, and a step changes neither.
\<close>

lemma firefly_ok_init: "firefly_ok (firefly_init r)"
  by (simp add: firefly_ok_def firefly_init_def FLASH_PHOTINUS_PALLENS_def FLASH_COUNT_def
      FIREFLY_SMOOTHING_MIN_def)

lemma firefly_step_keeps:
  "firefly_step f ts = Some f' \<Longrightarrow> flash_id f' = flash_id f \<and> smoothing f' = smoothing f"
  by (auto simp: firefly_step_def Let_def split: option.splits)

lemma firefly_ok_update:
  assumes "firefly_ok f" "0 \<le> r1" "firefly_update r1 r2 r3 f = Some (f', led)"
  shows "firefly_ok f'"
proof (cases "flashing f")
  case True
  with assms(3) obtain g where "firefly_step f FIREFLY_TIMESTEP = Some g" "f' = g"
    by (auto simp: firefly_update_def split: option.splits)
  with firefly_step_keeps [of f FIREFLY_TIMESTEP f'] assms(1) show ?thesis
    by (simp add: firefly_ok_def)
next
  case False
  show ?thesis
  proof (cases "delay_len f \<le> delay_time f")
    case True
    have i: "nat (r1 mod 6) < 6" using assms(2) by simp
    have s: "0 \<le> r2 mod 451 + 50" "r2 mod 451 + 50 < 2 ^ 15"
    proof -
      have "0 \<le> r2 mod 451" "r2 mod 451 < 451" by simp_all
      then show "0 \<le> r2 mod 451 + 50" "r2 mod 451 + 50 < 2 ^ 15" by simp_all
    qed
    from False True assms(3) i s show ?thesis
      by (auto simp: firefly_update_def firefly_ok_def Let_def rand_range_def FLASH_COUNT_def
          FLASH_PHOTINUS_PALLENS_def FLASH_PHOTINUS_LEUCOPYGE_def FIREFLY_SMOOTHING_MIN_def
          FIREFLY_SMOOTHING_MAX_def)
  next
    case wait: False
    with False assms(1,3) show ?thesis
      by (auto simp: firefly_update_def firefly_ok_def)
  qed
qed

text \<open>
  C3. A step of a flashing firefly (of a defined pattern, its smoothing within
  \<open>0..2^15 - 1\<close>, as \<open>firefly_ok\<close> has it) returns, and it clears the \<^verbatim>\<open>flashing\<close> flag
  if and only if the brightness it has just recomputed is 0 and the new flash time
  exceeds the firefly's \<^verbatim>\<open>smoothing\<close> field, the field the specification's data model
  calls the smoothing half-width. This holds of \<^verbatim>\<open>firefly_step\<close> with any time step, and
  the animation engine's update of a flashing firefly is that step with
  \<^verbatim>\<open>FIREFLY_TIMESTEP\<close>.
\<close>

theorem flash_ends_iff:
  assumes "flashing f" "flash_id f < FLASH_COUNT" "0 \<le> smoothing f" "smoothing f < 2 ^ 15"
  shows "\<exists>b f'. calculate_brightness_smoothed (flash_id f) (s32 (flash_time f + time_step))
                  (smoothing f) = Some b
     \<and> firefly_step f time_step = Some f'
     \<and> flash_time f' = s32 (flash_time f + time_step) \<and> brightness f' = b
     \<and> smoothing f' = smoothing f
     \<and> (\<not> flashing f' \<longleftrightarrow> b = 0 \<and> smoothing f' < flash_time f')
     \<and> (\<exists>g. firefly_step f FIREFLY_TIMESTEP = Some g
          \<and> firefly_update r1 r2 r3 f = Some (g, Some (c_div (s32 (brightness g * 150)) 1000)))"
proof -
  have s: "s16 (smoothing f) = smoothing f"
    using assms(3,4) by (intro s16_id) simp_all
  have ex: "\<exists>b. calculate_brightness_smoothed (flash_id f) (s32 (flash_time f + ts))
      (smoothing f) = Some b" for ts
    using smoothed_bounds [OF assms(2) s32_range assms(3,4)] by blast
  from ex [of FIREFLY_TIMESTEP] obtain b'
    where "calculate_brightness_smoothed (flash_id f) (s32 (flash_time f + FIREFLY_TIMESTEP))
      (smoothing f) = Some b'" by blast
  then have u: "\<exists>g. firefly_step f FIREFLY_TIMESTEP = Some g
     \<and> firefly_update r1 r2 r3 f = Some (g, Some (c_div (s32 (brightness g * 150)) 1000))"
    using assms(1) by (simp add: firefly_update_def firefly_step_def Let_def s)
  from ex [of time_step] obtain b
    where "calculate_brightness_smoothed (flash_id f) (s32 (flash_time f + time_step))
      (smoothing f) = Some b" by blast
  then show ?thesis
    using assms(1) u by (simp add: firefly_step_def Let_def s)
qed

text \<open>
  \<open>late_firefly\<close> steps from flash time 342 to 350, past the 300 ticks of its pattern
  and the window: the brightness is 0, 50 < 350, and the flag is cleared.
\<close>

theorem flash_ends_iff_witness:
  "flashing late_firefly \<and> flash_id late_firefly < FLASH_COUNT
   \<and> 0 \<le> smoothing late_firefly \<and> smoothing late_firefly < 2 ^ 15
   \<and> firefly_step late_firefly 8
       = Some (late_firefly\<lparr>flash_time := 350, brightness := 0, flashing := False\<rparr>)
   \<and> calculate_brightness_smoothed FLASH_PHOTURIS_JAMAICENSIS 350 50 = Some 0 \<and> (50::int) < 350"
proof -
  have h: "flashing late_firefly" "flash_id late_firefly < FLASH_COUNT"
    "0 \<le> smoothing late_firefly" "smoothing late_firefly < 2 ^ 15"
    by (simp_all add: late_firefly_def FLASH_COUNT_def FLASH_PHOTURIS_JAMAICENSIS_def)
  have t: "s32 (flash_time late_firefly + 8) = 350"
    by (simp add: late_firefly_def s32_def)
  from flash_ends_iff [OF h, of 8]
  obtain b f' where r: "calculate_brightness_smoothed (flash_id late_firefly)
        (s32 (flash_time late_firefly + 8)) (smoothing late_firefly) = Some b"
    "firefly_step late_firefly 8 = Some f'"
    by blast
  have v: "calculate_brightness_smoothed FLASH_PHOTURIS_JAMAICENSIS 350 50 = Some 0"
    by code_simp
  with r(1) t have b0: "b = 0" by (simp add: late_firefly_def)
  have "firefly_step late_firefly 8
       = Some (late_firefly\<lparr>flash_time := 350, brightness := 0, flashing := False\<rparr>)"
    using r(1) t b0 by (simp add: firefly_step_def Let_def late_firefly_def s16_def)
  with h v show ?thesis by simp
qed

end
